theory Spec2Isabelle
  imports Main "HOL-Library.Sublist"
begin

section \<open>Data model\<close>

text \<open>
  The manager of \<^verbatim>\<open>controller/manager/manager.go\<close> drives a container engine through
  \<^verbatim>\<open>github.com/samalba/dockerclient\<close> and stores events in a database. Neither library
  is part of the repository, so the records below keep the fields the manager reads or
  writes, and the engine itself is a parameter of every operation (record \<open>client\<close>).
  Go pointers to these structs are never \<^verbatim>\<open>nil\<close> where the manager dereferences them
  (they come from a successful library call), so the model has no \<^verbatim>\<open>nil\<close> descriptor.
\<close>

datatype error = Error string

record HostConfig =
  Binds :: "string list"
  NetworkMode :: string

record ContainerConfig =
  Config_Hostname :: string
  Config_Image :: string
  Config_Memory :: int
  Config_HostConfig :: HostConfig

text \<open>\<^verbatim>\<open>dockerclient.Container\<close>: one entry of a listing.\<close>

record Container =
  Container_Id :: string
  Container_Image :: string

text \<open>\<^verbatim>\<open>dockerclient.ContainerInfo\<close>: the answer to an inspect call.\<close>

record ContainerInfo =
  Info_Id :: string
  Info_Image :: string
  Info_Args :: "string list"
  Info_Config :: ContainerConfig
  Info_HostConfig :: HostConfig

text \<open>\<^verbatim>\<open>shipyard.Event\<close> of \<^verbatim>\<open>event.go\<close>.\<close>

record Event =
  Event_Type :: string
  Event_Container :: string
  Event_Time :: int
  Event_Message :: string
  Event_Tags :: "string list"

section \<open>The engine as a parameter, and the trace of calls\<close>

text \<open>
  A Go call returning \<^verbatim>\<open>(v, err)\<close> is a value of \<open>error + 'a\<close>, one returning only
  \<^verbatim>\<open>err\<close> a value of \<open>error option\<close>. Each library call may change the engine's state
  \<open>'e\<close>. \<open>rtNow\<close> is \<^verbatim>\<open>time.Now().Unix()\<close>; \<open>rtInsertEvent\<close> is the insertion into the
  events table done by \<^verbatim>\<open>SaveEvent\<close>. \<^verbatim>\<open>PullImage\<close> is always called with a \<^verbatim>\<open>nil\<close>
  authentication argument, which the model leaves out.
\<close>

record 'e client =
  rtListContainers :: "bool \<Rightarrow> bool \<Rightarrow> string \<Rightarrow> 'e \<Rightarrow> (error + Container list) \<times> 'e"
  rtInspectContainer :: "string \<Rightarrow> 'e \<Rightarrow> (error + ContainerInfo) \<times> 'e"
  rtPullImage :: "string \<Rightarrow> 'e \<Rightarrow> error option \<times> 'e"
  rtCreateContainer :: "ContainerConfig \<Rightarrow> string \<Rightarrow> 'e \<Rightarrow> (error + string) \<times> 'e"
  rtStartContainer :: "string \<Rightarrow> HostConfig \<Rightarrow> 'e \<Rightarrow> error option \<times> 'e"
  rtKillContainer :: "string \<Rightarrow> string \<Rightarrow> 'e \<Rightarrow> error option \<times> 'e"
  rtRemoveContainer :: "string \<Rightarrow> bool \<Rightarrow> 'e \<Rightarrow> error option \<times> 'e"
  rtInsertEvent :: "Event \<Rightarrow> 'e \<Rightarrow> error option \<times> 'e"
  rtNow :: "'e \<Rightarrow> int"

text \<open>
  Every call the manager makes is appended to a trace, with the error it came back with
  (\<open>None\<close> for success), so that "which calls were requested, in which order" is a
  property of the model.
\<close>

datatype call =
    CListContainers bool bool string
  | CInspectContainer string
  | CPullImage string
  | CCreateContainer ContainerConfig string
  | CStartContainer string HostConfig
  | CKillContainer string string
  | CRemoveContainer string bool
  | CInsertEvent Event

record 'e world =
  engine :: 'e
  calls :: "(call \<times> error option) list"

definition errOf :: "error + 'a \<Rightarrow> error option" where
  "errOf r = (case r of Inl err \<Rightarrow> Some err | Inr _ \<Rightarrow> None)"

definition logged :: "call \<Rightarrow> ('e \<Rightarrow> (error + 'a) \<times> 'e) \<Rightarrow> 'e world \<Rightarrow> (error + 'a) \<times> 'e world" where
  "logged c f w =
     (case f (engine w) of
        (r, e') \<Rightarrow> (r, \<lparr>engine = e', calls = calls w @ [(c, errOf r)]\<rparr>))"

definition logged0 :: "call \<Rightarrow> ('e \<Rightarrow> error option \<times> 'e) \<Rightarrow> 'e world \<Rightarrow> error option \<times> 'e world" where
  "logged0 c f w =
     (case f (engine w) of
        (r, e') \<Rightarrow> (r, \<lparr>engine = e', calls = calls w @ [(c, r)]\<rparr>))"

definition client_ListContainers ::
  "'e client \<Rightarrow> bool \<Rightarrow> bool \<Rightarrow> string \<Rightarrow> 'e world \<Rightarrow> (error + Container list) \<times> 'e world" where
  "client_ListContainers cl all sz flt = logged (CListContainers all sz flt) (rtListContainers cl all sz flt)"

definition client_InspectContainer ::
  "'e client \<Rightarrow> string \<Rightarrow> 'e world \<Rightarrow> (error + ContainerInfo) \<times> 'e world" where
  "client_InspectContainer cl cid = logged (CInspectContainer cid) (rtInspectContainer cl cid)"

definition client_PullImage :: "'e client \<Rightarrow> string \<Rightarrow> 'e world \<Rightarrow> error option \<times> 'e world" where
  "client_PullImage cl img = logged0 (CPullImage img) (rtPullImage cl img)"

definition client_CreateContainer ::
  "'e client \<Rightarrow> ContainerConfig \<Rightarrow> string \<Rightarrow> 'e world \<Rightarrow> (error + string) \<times> 'e world" where
  "client_CreateContainer cl cfg nm = logged (CCreateContainer cfg nm) (rtCreateContainer cl cfg nm)"

definition client_StartContainer ::
  "'e client \<Rightarrow> string \<Rightarrow> HostConfig \<Rightarrow> 'e world \<Rightarrow> error option \<times> 'e world" where
  "client_StartContainer cl cid hc = logged0 (CStartContainer cid hc) (rtStartContainer cl cid hc)"

definition client_KillContainer ::
  "'e client \<Rightarrow> string \<Rightarrow> string \<Rightarrow> 'e world \<Rightarrow> error option \<times> 'e world" where
  "client_KillContainer cl cid sig = logged0 (CKillContainer cid sig) (rtKillContainer cl cid sig)"

definition client_RemoveContainer ::
  "'e client \<Rightarrow> string \<Rightarrow> bool \<Rightarrow> 'e world \<Rightarrow> error option \<times> 'e world" where
  "client_RemoveContainer cl cid force = logged0 (CRemoveContainer cid force) (rtRemoveContainer cl cid force)"

section \<open>Go's string functions\<close>

text \<open>\<^verbatim>\<open>strings.HasPrefix(s, p)\<close> and \<^verbatim>\<open>strings.Index(s, sub)\<close> (first position of
  \<^verbatim>\<open>sub\<close> in \<^verbatim>\<open>s\<close>, or -1).\<close>

definition HasPrefix :: "string \<Rightarrow> string \<Rightarrow> bool" where
  "HasPrefix s p = prefix p s"

fun Index :: "string \<Rightarrow> string \<Rightarrow> int" where
  "Index [] sub = (if sub = [] then 0 else - 1)"
| "Index (c # s) sub =
     (if prefix sub (c # s) then 0
      else (let i = Index s sub in if i = - 1 then - 1 else i + 1))"

section \<open>The manager\<close>

subsection \<open>\<^verbatim>\<open>Container\<close>, \<^verbatim>\<open>Containers\<close>\<close>

fun Container_loop ::
  "'e client \<Rightarrow> string \<Rightarrow> Container list \<Rightarrow> 'e world
     \<Rightarrow> (ContainerInfo option \<times> error option) \<times> 'e world" where
  "Container_loop cl cid [] w = ((None, None), w)"
| "Container_loop cl cid (cnt # rest) w =
     (if HasPrefix (Container_Id cnt) cid then
        (case client_InspectContainer cl (Container_Id cnt) w of
           (Inl err, w1) \<Rightarrow> ((None, Some err), w1)
         | (Inr info, w1) \<Rightarrow> ((Some info, None), w1))
      else Container_loop cl cid rest w)"

definition Container ::
  "'e client \<Rightarrow> string \<Rightarrow> 'e world \<Rightarrow> (ContainerInfo option \<times> error option) \<times> 'e world" where
  "Container cl cid w =
     (case client_ListContainers cl True False '''' w of
        (Inl err, w1) \<Rightarrow> ((None, Some err), w1)
      | (Inr containers, w1) \<Rightarrow> Container_loop cl cid containers w1)"

definition Containers ::
  "'e client \<Rightarrow> bool \<Rightarrow> 'e world \<Rightarrow> (error + Container list) \<times> 'e world" where
  "Containers cl all w = client_ListContainers cl all False '''' w"

subsection \<open>\<^verbatim>\<open>ContainersByImage\<close>, \<^verbatim>\<open>IdenticalContainers\<close>\<close>

fun ContainersByImage_loop ::
  "'e client \<Rightarrow> string \<Rightarrow> Container list \<Rightarrow> ContainerInfo list \<Rightarrow> 'e world
     \<Rightarrow> (error + ContainerInfo list) \<times> 'e world" where
  "ContainersByImage_loop cl name [] imageContainers w = (Inr imageContainers, w)"
| "ContainersByImage_loop cl name (c # rest) imageContainers w =
     (if Index (Container_Image c) name > - 1 then
        (case client_InspectContainer cl (Container_Id c) w of
           (Inl err, w1) \<Rightarrow> (Inl err, w1)
         | (Inr info, w1) \<Rightarrow> ContainersByImage_loop cl name rest (imageContainers @ [info]) w1)
      else ContainersByImage_loop cl name rest imageContainers w)"

definition ContainersByImage ::
  "'e client \<Rightarrow> string \<Rightarrow> bool \<Rightarrow> 'e world \<Rightarrow> (error + ContainerInfo list) \<times> 'e world" where
  "ContainersByImage cl name all w =
     (case Containers cl all w of
        (Inl err, w1) \<Rightarrow> (Inl err, w1)
      | (Inr allContainers, w1) \<Rightarrow> ContainersByImage_loop cl name allContainers [] w1)"

fun IdenticalContainers_loop ::
  "ContainerInfo \<Rightarrow> ContainerInfo list \<Rightarrow> ContainerInfo list \<Rightarrow> ContainerInfo list" where
  "IdenticalContainers_loop container [] containers = containers"
| "IdenticalContainers_loop container (c # rest) containers =
     (let args = length (Info_Args c); origArgs = length (Info_Args container) in
      if Config_Memory (Info_Config c) = Config_Memory (Info_Config container) \<and> args = origArgs
      then IdenticalContainers_loop container rest (containers @ [c])
      else IdenticalContainers_loop container rest containers)"

definition IdenticalContainers ::
  "'e client \<Rightarrow> ContainerInfo \<Rightarrow> bool \<Rightarrow> 'e world \<Rightarrow> (error + ContainerInfo list) \<times> 'e world" where
  "IdenticalContainers cl container all w =
     (case ContainersByImage cl (Info_Image container) all w of
        (Inl err, w1) \<Rightarrow> (Inl err, w1)
      | (Inr imageContainers, w1) \<Rightarrow>
          (Inr (IdenticalContainers_loop container imageContainers []), w1))"

subsection \<open>\<^verbatim>\<open>Destroy\<close>\<close>

definition Destroy :: "'e client \<Rightarrow> string \<Rightarrow> 'e world \<Rightarrow> error option \<times> 'e world" where
  "Destroy cl cid w =
     (case client_KillContainer cl cid ''kill'' w of
        (Some err, w1) \<Rightarrow> (Some err, w1)
      | (None, w1) \<Rightarrow>
          (case client_RemoveContainer cl cid True w1 of
             (Some err, w2) \<Rightarrow> (Some err, w2)
           | (None, w2) \<Rightarrow> (None, w2)))"

subsection \<open>\<^verbatim>\<open>SaveEvent\<close>\<close>

definition SaveEvent :: "'e client \<Rightarrow> Event \<Rightarrow> 'e world \<Rightarrow> error option \<times> 'e world" where
  "SaveEvent cl event w =
     (case logged0 (CInsertEvent event) (rtInsertEvent cl event) w of
        (Some err, w1) \<Rightarrow> (Some err, w1)
      | (None, w1) \<Rightarrow> (None, w1))"

subsection \<open>How a call can end\<close>

text \<open>
  A manager method either returns its Go results, or panics (a slice bound out of range,
  a negative wait-group counter), or never returns (a wait on a wait group that is never
  released).
\<close>

datatype 'a outcome = Returns 'a | Panics | Hangs

subsection \<open>\<^verbatim>\<open>RedeployContainers\<close>\<close>

text \<open>
  The loop over the listed containers ends in one of three ways: a \<^verbatim>\<open>return err\<close>
  inside the body (\<open>Abort\<close>), a panic of the slice expression \<^verbatim>\<open>containerId[:8]\<close> in
  the log statement when the new identifier is shorter than 8 bytes (\<open>Crashed\<close>), or the
  end of the list with the value of \<^verbatim>\<open>deployed\<close> (\<open>Finished\<close>). The result of
  \<^verbatim>\<open>m.Destroy(c.Id)\<close> is discarded, as in the source. Log output is not modelled.
\<close>

datatype loop_exit = Abort error | Crashed | Finished bool

fun Redeploy_loop ::
  "'e client \<Rightarrow> string \<Rightarrow> Container list \<Rightarrow> bool \<Rightarrow> 'e world \<Rightarrow> loop_exit \<times> 'e world" where
  "Redeploy_loop cl img [] deployed w = (Finished deployed, w)"
| "Redeploy_loop cl img (c # rest) deployed w =
     (if Index (Container_Image c) img > - 1 then
        (case client_InspectContainer cl (Container_Id c) w of
           (Inl err, w1) \<Rightarrow> (Abort err, w1)
         | (Inr info, w1) \<Rightarrow>
             (let cfg = Info_Config info in
              case client_PullImage cl img w1 of
                (Some err, w2) \<Rightarrow> (Abort err, w2)
              | (None, w2) \<Rightarrow>
                  (case Destroy cl (Container_Id c) w2 of
                     (_, w3) \<Rightarrow>
                       (case client_CreateContainer cl cfg '''' w3 of
                          (Inl err, w4) \<Rightarrow> (Abort err, w4)
                        | (Inr containerId, w4) \<Rightarrow>
                            (case client_StartContainer cl containerId (Info_HostConfig info) w4 of
                               (Some err, w5) \<Rightarrow> (Abort err, w5)
                             | (None, w5) \<Rightarrow>
                                 (if length containerId < 8 then (Crashed, w5)
                                  else Redeploy_loop cl img rest True w5))))))
      else Redeploy_loop cl img rest deployed w)"

definition deployEvent :: "string \<Rightarrow> int \<Rightarrow> Event" where
  "deployEvent img now =
     \<lparr>Event_Type = ''deploy'', Event_Container = '''', Event_Time = now,
      Event_Message = img @ '' deployed'', Event_Tags = [''deploy'']\<rparr>"

definition RedeployContainers ::
  "'e client \<Rightarrow> string \<Rightarrow> 'e world \<Rightarrow> error option outcome \<times> 'e world" where
  "RedeployContainers cl img w =
     (case Containers cl False w of
        (Inl err, w1) \<Rightarrow> (Returns (Some err), w1)
      | (Inr containers, w1) \<Rightarrow>
          (case Redeploy_loop cl img containers False w1 of
             (Abort err, w2) \<Rightarrow> (Returns (Some err), w2)
           | (Crashed, w2) \<Rightarrow> (Panics, w2)
           | (Finished deployed, w2) \<Rightarrow>
               (if deployed then
                  (let evt = deployEvent img (rtNow cl (engine w2)) in
                   case SaveEvent cl evt w2 of
                     (Some err, w3) \<Rightarrow> (Returns (Some err), w3)
                   | (None, w3) \<Rightarrow> (Returns None, w3))
                else (Returns None, w2))))"

subsection \<open>\<^verbatim>\<open>Run\<close>\<close>

text \<open>
  \<^verbatim>\<open>Run\<close> starts \<^verbatim>\<open>count\<close> goroutines that share \<^verbatim>\<open>launched\<close>, \<^verbatim>\<open>runErr\<close> and the
  wait group, then waits on the wait group. The model runs the goroutine bodies one after
  the other in the order they are started, which is one of the schedules Go allows; it
  does not model the unsynchronised writes of other schedules (an append lost to a race is
  not represented), so nothing below is stated about the contents of \<^verbatim>\<open>launched\<close> under
  other schedules. The calls a goroutine makes do not depend on the other goroutines.

  The wait group is modelled as Go's \<^verbatim>\<open>sync.WaitGroup\<close> has it: a signed 32-bit counter.
  \<^verbatim>\<open>wg.Add(delta)\<close> adds \<^verbatim>\<open>int32(delta)\<close> with wrap-around and panics when the result
  is negative; \<^verbatim>\<open>wg.Done()\<close> is \<^verbatim>\<open>wg.Add(-1)\<close>; \<^verbatim>\<open>wg.Wait()\<close> returns only when the
  counter is zero. So \<^verbatim>\<open>wg.Add(count)\<close> panics for a negative \<^verbatim>\<open>count\<close> and for one
  from \<open>2^31\<close> on whose low 32 bits read as a negative number, before any goroutine is
  started. A panic inside a goroutine ends the program, so no later body runs. Since no
  goroutine is left to decrement the counter once all bodies have ended, a non-zero
  counter after the bodies means that \<^verbatim>\<open>Run\<close> never returns.
\<close>

definition int32 :: "int \<Rightarrow> int" where
  "int32 x = (x + 2 ^ 31) mod 2 ^ 32 - 2 ^ 31"

definition wg_Add :: "int \<Rightarrow> int \<Rightarrow> int option" where
  "wg_Add counter delta =
     (let v = int32 (counter + delta) in if v < 0 then None else Some v)"

record run_state =
  launched :: "string list"
  runErr :: "error option"
  wg :: int
  panicked :: bool

definition Run_attempt ::
  "'e client \<Rightarrow> ContainerConfig \<Rightarrow> bool \<Rightarrow> run_state \<times> 'e world \<Rightarrow> run_state \<times> 'e world" where
  "Run_attempt cl config pull sw =
     (case sw of (st, w) \<Rightarrow>
       (case (if pull then client_PullImage cl (Config_Image config) w else (None, w)) of
          (Some err, w1) \<Rightarrow> (st\<lparr>runErr := Some err\<rparr>, w1)
        | (None, w1) \<Rightarrow>
            (case client_CreateContainer cl config '''' w1 of
               (Inl err, w2) \<Rightarrow> (st\<lparr>runErr := Some err\<rparr>, w2)
             | (Inr containerId, w2) \<Rightarrow>
                 (case client_StartContainer cl containerId (Config_HostConfig config) w2 of
                    (Some err, w3) \<Rightarrow> (st\<lparr>runErr := Some err\<rparr>, w3)
                  | (None, w3) \<Rightarrow>
                      (case wg_Add (wg st) (- 1) of
                         None \<Rightarrow>
                           (st\<lparr>launched := launched st @ [containerId], panicked := True\<rparr>, w3)
                       | Some v \<Rightarrow>
                           (st\<lparr>launched := launched st @ [containerId], wg := v\<rparr>, w3))))))"

fun Run_loop ::
  "'e client \<Rightarrow> ContainerConfig \<Rightarrow> bool \<Rightarrow> nat \<Rightarrow> run_state \<times> 'e world \<Rightarrow> run_state \<times> 'e world" where
  "Run_loop cl config pull 0 sw = sw"
| "Run_loop cl config pull (Suc n) sw =
     (if panicked (fst sw) then sw
      else Run_loop cl config pull n (Run_attempt cl config pull sw))"

definition Run ::
  "'e client \<Rightarrow> ContainerConfig \<Rightarrow> int \<Rightarrow> bool \<Rightarrow> 'e world
     \<Rightarrow> (string list \<times> error option) outcome \<times> 'e world" where
  "Run cl config count pull w =
     (case wg_Add 0 count of
        None \<Rightarrow> (Panics, w)
      | Some v \<Rightarrow>
          (case Run_loop cl config pull (nat count)
                  (\<lparr>launched = [], runErr = None, wg = v, panicked = False\<rparr>, w) of
             (st, w1) \<Rightarrow>
               (if panicked st then (Panics, w1)
                else if wg st = 0 then (Returns (launched st, runErr st), w1)
                else (Hangs, w1))))"

subsection \<open>\<^verbatim>\<open>Scale\<close>\<close>

fun Scale_down_loop :: "'e client \<Rightarrow> ContainerInfo list \<Rightarrow> 'e world \<Rightarrow> error option \<times> 'e world" where
  "Scale_down_loop cl [] w = (None, w)"
| "Scale_down_loop cl (c # rest) w =
     (case Destroy cl (Info_Id c) w of
        (Some err, w1) \<Rightarrow> (Some err, w1)
      | (None, w1) \<Rightarrow> Scale_down_loop cl rest w1)"

text \<open>
  \<^verbatim>\<open>imageContainers[0:numKill]\<close> is legal up to the capacity of the slice, not only up to
  its length. The capacity \<^verbatim>\<open>append\<close> has given the slice is decided by the Go runtime,
  which is not part of the repository, so it is a parameter: \<open>slice_cap n\<close> is the capacity
  of a slice that was grown one element at a time to the length \<open>n\<close> (never less than
  \<open>n\<close>, which the model enforces by taking the larger of the two). With a negative
  \<^verbatim>\<open>count\<close>, \<^verbatim>\<open>numKill\<close> exceeds the length. Beyond the capacity the slice expression
  panics before any destroy. Within the capacity the slice is the whole class followed by
  \<^verbatim>\<open>nil\<close> elements: the loop destroys every member of the class (returning at the first
  destroy that fails) and then panics on \<^verbatim>\<open>c.Id\<close> of the first \<^verbatim>\<open>nil\<close> element.
  Scaling up writes the empty hostname into the configuration of the caller's descriptor
  and hands that configuration to \<^verbatim>\<open>Run\<close>.
\<close>

definition Scale ::
  "'e client \<Rightarrow> (nat \<Rightarrow> nat) \<Rightarrow> ContainerInfo \<Rightarrow> int \<Rightarrow> 'e world
     \<Rightarrow> error option outcome \<times> 'e world" where
  "Scale cl slice_cap container count w =
     (case client_InspectContainer cl (Info_Id container) w of
        (Inl err, w1) \<Rightarrow> (Returns (Some err), w1)
      | (Inr info, w1) \<Rightarrow>
          (case IdenticalContainers cl info True w1 of
             (Inl err, w2) \<Rightarrow> (Returns (Some err), w2)
           | (Inr imageContainers, w2) \<Rightarrow>
               (let containerCount = int (length imageContainers) in
                if containerCount > count then
                  (let numKill = containerCount - count in
                   if numKill \<le> containerCount then
                     (case Scale_down_loop cl (take (nat numKill) imageContainers) w2 of
                        (Some err, w3) \<Rightarrow> (Returns (Some err), w3)
                      | (None, w3) \<Rightarrow> (Returns None, w3))
                   else if numKill >
                        int (max (length imageContainers) (slice_cap (length imageContainers)))
                   then (Panics, w2)
                   else
                     (case Scale_down_loop cl imageContainers w2 of
                        (Some err, w3) \<Rightarrow> (Returns (Some err), w3)
                      | (None, w3) \<Rightarrow> (Panics, w3)))
                else if containerCount < count then
                  (let numAdd = count - containerCount;
                       config = (Info_Config container)\<lparr>Config_Hostname := ''''\<rparr> in
                   case Run cl config numAdd False w2 of
                     (Returns (_, Some err), w3) \<Rightarrow> (Returns (Some err), w3)
                   | (Returns (_, None), w3) \<Rightarrow> (Returns None, w3)
                   | (Panics, w3) \<Rightarrow> (Panics, w3)
                   | (Hangs, w3) \<Rightarrow> (Hangs, w3))
                else (Returns None, w2))))"

section \<open>A reference engine\<close>

text \<open>
  Modelled from the spec: the Container Runtime Client and the Event Sink
  (\<^verbatim>\<open>github.com/samalba/dockerclient\<close> and the database driver are not under the
  repository's sources). The spec's section 6 names the operations
  \<^verbatim>\<open>list(all)\<close>, \<^verbatim>\<open>inspect(id)\<close>, \<^verbatim>\<open>pull(imageRef)\<close>, \<^verbatim>\<open>create(config)\<close>,
  \<^verbatim>\<open>start(id, hostConfig)\<close>, \<^verbatim>\<open>kill(id, signal)\<close>, \<^verbatim>\<open>remove(id, force)\<close>, each of
  which "may fail with a connectivity or engine-reported error", and an append-only
  event sink. The fleet is the list of replicas in listing order, each a descriptor and a
  running flag; a listing with \<open>all = False\<close> shows the running ones only. \<open>script\<close>
  gives the fate of the coming calls, one entry per call: \<open>Some err\<close> makes that call fail
  with \<open>err\<close> and leave the fleet as it is; when the script is used up, calls go through.
  This engine is what the concrete runs below use, and the claims that speak of the
  fleet after a call are stated on it.
\<close>

record replica =
  rep_info :: ContainerInfo
  rep_running :: bool

record fleet =
  replicas :: "replica list"
  script :: "error option list"
  created :: nat
  sink :: "Event list"
  clock :: int

definition next_fault :: "fleet \<Rightarrow> error option \<times> fleet" where
  "next_fault f =
     (case script f of [] \<Rightarrow> (None, f) | x # rest \<Rightarrow> (x, f\<lparr>script := rest\<rparr>))"

definition listing_entry :: "replica \<Rightarrow> Container" where
  "listing_entry r =
     \<lparr>Container_Id = Info_Id (rep_info r), Container_Image = Info_Image (rep_info r)\<rparr>"

definition has_id :: "string \<Rightarrow> replica \<Rightarrow> bool" where
  "has_id cid r = (Info_Id (rep_info r) = cid)"

definition fresh_id :: "nat \<Rightarrow> string" where
  "fresh_id n = ''replica-'' @ replicate n (CHR ''+'')"

definition fleet_list :: "bool \<Rightarrow> bool \<Rightarrow> string \<Rightarrow> fleet \<Rightarrow> (error + Container list) \<times> fleet" where
  "fleet_list all sz flt f =
     (case next_fault f of
        (Some err, f1) \<Rightarrow> (Inl err, f1)
      | (None, f1) \<Rightarrow>
          (Inr (map listing_entry (filter (\<lambda>r. all \<or> rep_running r) (replicas f1))), f1))"

definition fleet_inspect :: "string \<Rightarrow> fleet \<Rightarrow> (error + ContainerInfo) \<times> fleet" where
  "fleet_inspect cid f =
     (case next_fault f of
        (Some err, f1) \<Rightarrow> (Inl err, f1)
      | (None, f1) \<Rightarrow>
          (case find (has_id cid) (replicas f1) of
             None \<Rightarrow> (Inl (Error ''Not found''), f1)
           | Some r \<Rightarrow> (Inr (rep_info r), f1)))"

definition fleet_pull :: "string \<Rightarrow> fleet \<Rightarrow> error option \<times> fleet" where
  "fleet_pull ref f = next_fault f"

definition fleet_create :: "ContainerConfig \<Rightarrow> string \<Rightarrow> fleet \<Rightarrow> (error + string) \<times> fleet" where
  "fleet_create cfg nm f =
     (case next_fault f of
        (Some err, f1) \<Rightarrow> (Inl err, f1)
      | (None, f1) \<Rightarrow>
          (let cid = fresh_id (created f1);
               info = \<lparr>Info_Id = cid, Info_Image = Config_Image cfg, Info_Args = [],
                       Info_Config = cfg, Info_HostConfig = Config_HostConfig cfg\<rparr>
           in (Inr cid,
               f1\<lparr>replicas := replicas f1 @ [\<lparr>rep_info = info, rep_running = False\<rparr>],
                  created := Suc (created f1)\<rparr>)))"

definition fleet_start :: "string \<Rightarrow> HostConfig \<Rightarrow> fleet \<Rightarrow> error option \<times> fleet" where
  "fleet_start cid hc f =
     (case next_fault f of
        (Some err, f1) \<Rightarrow> (Some err, f1)
      | (None, f1) \<Rightarrow>
          (if list_ex (has_id cid) (replicas f1) then
             (None,
              f1\<lparr>replicas :=
                   map (\<lambda>r. if has_id cid r
                             then \<lparr>rep_info = (rep_info r)\<lparr>Info_HostConfig := hc\<rparr>, rep_running = True\<rparr>
                             else r) (replicas f1)\<rparr>)
           else (Some (Error ''Not found''), f1)))"

definition fleet_kill :: "string \<Rightarrow> string \<Rightarrow> fleet \<Rightarrow> error option \<times> fleet" where
  "fleet_kill cid sig f =
     (case next_fault f of
        (Some err, f1) \<Rightarrow> (Some err, f1)
      | (None, f1) \<Rightarrow>
          (if list_ex (has_id cid) (replicas f1) then
             (None,
              f1\<lparr>replicas :=
                   map (\<lambda>r. if has_id cid r then r\<lparr>rep_running := False\<rparr> else r) (replicas f1)\<rparr>)
           else (Some (Error ''Not found''), f1)))"

definition fleet_remove :: "string \<Rightarrow> bool \<Rightarrow> fleet \<Rightarrow> error option \<times> fleet" where
  "fleet_remove cid force f =
     (case next_fault f of
        (Some err, f1) \<Rightarrow> (Some err, f1)
      | (None, f1) \<Rightarrow>
          (case find (has_id cid) (replicas f1) of
             None \<Rightarrow> (Some (Error ''Not found''), f1)
           | Some r \<Rightarrow>
               (if rep_running r \<and> \<not> force then (Some (Error ''Conflict''), f1)
                else (None, f1\<lparr>replicas := filter (\<lambda>r. \<not> has_id cid r) (replicas f1)\<rparr>))))"

definition fleet_insert :: "Event \<Rightarrow> fleet \<Rightarrow> error option \<times> fleet" where
  "fleet_insert evt f =
     (case next_fault f of
        (Some err, f1) \<Rightarrow> (Some err, f1)
      | (None, f1) \<Rightarrow> (None, f1\<lparr>sink := sink f1 @ [evt]\<rparr>))"

definition fleet_client :: "fleet client" where
  "fleet_client =
     \<lparr>rtListContainers = fleet_list, rtInspectContainer = fleet_inspect,
      rtPullImage = fleet_pull, rtCreateContainer = fleet_create,
      rtStartContainer = fleet_start, rtKillContainer = fleet_kill,
      rtRemoveContainer = fleet_remove, rtInsertEvent = fleet_insert, rtNow = clock\<rparr>"

text \<open>A world around a fleet, with an empty trace.\<close>

definition start_world :: "fleet \<Rightarrow> fleet world" where
  "start_world f = \<lparr>engine = f, calls = []\<rparr>"

subsection \<open>Concrete descriptors for the runs below\<close>

definition hc0 :: HostConfig where
  "hc0 = \<lparr>Binds = [], NetworkMode = ''bridge''\<rparr>"

definition descriptor :: "string \<Rightarrow> string \<Rightarrow> string \<Rightarrow> string list \<Rightarrow> int \<Rightarrow> ContainerInfo" where
  "descriptor cid img host args mem =
     \<lparr>Info_Id = cid, Info_Image = img, Info_Args = args,
      Info_Config = \<lparr>Config_Hostname = host, Config_Image = img, Config_Memory = mem,
                      Config_HostConfig = hc0\<rparr>,
      Info_HostConfig = hc0\<rparr>"

definition running :: "ContainerInfo \<Rightarrow> replica" where
  "running d = \<lparr>rep_info = d, rep_running = True\<rparr>"

definition stopped :: "ContainerInfo \<Rightarrow> replica" where
  "stopped d = \<lparr>rep_info = d, rep_running = False\<rparr>"

definition fleet_of :: "replica list \<Rightarrow> error option list \<Rightarrow> fleet" where
  "fleet_of rs sc = \<lparr>replicas = rs, script = sc, created = 0, sink = [], clock = 1000\<rparr>"


section \<open>Notions used in the statements\<close>

text \<open>The calls made between two worlds of one run.\<close>
definition new_calls :: "'e world \<Rightarrow> 'e world \<Rightarrow> (call \<times> error option) list" where
  "new_calls w w' = drop (length (calls w)) (calls w')"

text \<open>
  Projections of a trace: the image references pulled, the identifiers inspected, the
  \<open>all\<close> flags of the listings, the events handed to the sink, and the identifiers
  whose start succeeded, each in order of occurrence.
\<close>

definition pulled :: "(call \<times> error option) list \<Rightarrow> string list" where
  "pulled tr = concat (map (\<lambda>(c, r). case c of CPullImage x \<Rightarrow> [x] | _ \<Rightarrow> []) tr)"

definition inspected :: "(call \<times> error option) list \<Rightarrow> string list" where
  "inspected tr = concat (map (\<lambda>(c, r). case c of CInspectContainer x \<Rightarrow> [x] | _ \<Rightarrow> []) tr)"

definition listings :: "(call \<times> error option) list \<Rightarrow> bool list" where
  "listings tr = concat (map (\<lambda>(c, r). case c of CListContainers a s f \<Rightarrow> [a] | _ \<Rightarrow> []) tr)"

definition inserted :: "(call \<times> error option) list \<Rightarrow> Event list" where
  "inserted tr = concat (map (\<lambda>(c, r). case c of CInsertEvent ev \<Rightarrow> [ev] | _ \<Rightarrow> []) tr)"

definition started :: "(call \<times> error option) list \<Rightarrow> string list" where
  "started tr = concat (map (\<lambda>(c, r). case c of CStartContainer x hc \<Rightarrow> (if r = None then [x] else []) | _ \<Rightarrow> []) tr)"

text \<open>
  The per-replica steps of a redeployment whose error the loop checks (configuration
  capture, pull, create, start); a trace is \<open>clean\<close> when none of them failed in it.
\<close>

fun replica_step :: "call \<Rightarrow> bool" where
  "replica_step (CInspectContainer x) = True"
| "replica_step (CPullImage x) = True"
| "replica_step (CCreateContainer cfg nm) = True"
| "replica_step (CStartContainer x hc) = True"
| "replica_step c = False"

definition clean :: "(call \<times> error option) list \<Rightarrow> bool" where
  "clean tr = list_all (\<lambda>(c, r). replica_step c \<longrightarrow> r = None) tr"

text \<open>The listed containers whose image reference contains \<open>img\<close>.\<close>

definition matching :: "string \<Rightarrow> Container list \<Rightarrow> Container list" where
  "matching img cs = filter (\<lambda>c. sublist img (Container_Image c)) cs"

text \<open>
  The calls of one \<^verbatim>\<open>Destroy\<close>: a failed kill alone, or a successful kill followed
  by the forced removal.
\<close>

definition destroy_trace :: "string \<Rightarrow> (call \<times> error option) list \<Rightarrow> bool" where
  "destroy_trace cid tr \<longleftrightarrow>
     (\<exists>e. tr = [(CKillContainer cid ''kill'', Some e)])
   \<or> (\<exists>r. tr = [(CKillContainer cid ''kill'', None), (CRemoveContainer cid True, r)])"

text \<open>
  The traces the loop of \<^verbatim>\<open>RedeployContainers\<close> can leave, by the way it ends, one
  rule per exit of the loop body.
\<close>

inductive redeploy_trace ::
  "string \<Rightarrow> Container list \<Rightarrow> bool \<Rightarrow> loop_exit \<Rightarrow> (call \<times> error option) list \<Rightarrow> bool"
  for img :: string where
  rt_end: "redeploy_trace img [] deployed (Finished deployed) []"
| rt_skip:
    "\<not> Index (Container_Image c) img > - 1 \<Longrightarrow> redeploy_trace img rest deployed x tr
     \<Longrightarrow> redeploy_trace img (c # rest) deployed x tr"
| rt_inspect_fails:
    "Index (Container_Image c) img > - 1
     \<Longrightarrow> redeploy_trace img (c # rest) deployed (Abort err)
           [(CInspectContainer (Container_Id c), Some err)]"
| rt_pull_fails:
    "Index (Container_Image c) img > - 1
     \<Longrightarrow> redeploy_trace img (c # rest) deployed (Abort err)
           [(CInspectContainer (Container_Id c), None), (CPullImage img, Some err)]"
| rt_create_fails:
    "Index (Container_Image c) img > - 1 \<Longrightarrow> destroy_trace (Container_Id c) dt
     \<Longrightarrow> redeploy_trace img (c # rest) deployed (Abort err)
           ([(CInspectContainer (Container_Id c), None), (CPullImage img, None)] @ dt
            @ [(CCreateContainer cfg '''', Some err)])"
| rt_start_fails:
    "Index (Container_Image c) img > - 1 \<Longrightarrow> destroy_trace (Container_Id c) dt
     \<Longrightarrow> redeploy_trace img (c # rest) deployed (Abort err)
           ([(CInspectContainer (Container_Id c), None), (CPullImage img, None)] @ dt
            @ [(CCreateContainer cfg '''', None), (CStartContainer containerId hc, Some err)])"
| rt_crash:
    "Index (Container_Image c) img > - 1 \<Longrightarrow> destroy_trace (Container_Id c) dt
     \<Longrightarrow> length containerId < 8
     \<Longrightarrow> redeploy_trace img (c # rest) deployed Crashed
           ([(CInspectContainer (Container_Id c), None), (CPullImage img, None)] @ dt
            @ [(CCreateContainer cfg '''', None), (CStartContainer containerId hc, None)])"
| rt_step:
    "Index (Container_Image c) img > - 1 \<Longrightarrow> destroy_trace (Container_Id c) dt
     \<Longrightarrow> \<not> length containerId < 8 \<Longrightarrow> redeploy_trace img rest True x tr
     \<Longrightarrow> redeploy_trace img (c # rest) deployed x
           ([(CInspectContainer (Container_Id c), None), (CPullImage img, None)] @ dt
            @ [(CCreateContainer cfg '''', None), (CStartContainer containerId hc, None)] @ tr)"

text \<open>A fleet of four replicas for the concrete runs; \<open>sc\<close> is the script of faults.\<close>

definition fleet_demo :: "error option list \<Rightarrow> fleet" where
  "fleet_demo sc =
     fleet_of [running (descriptor ''aaaaaaaa1'' ''myapp:v1'' ''web1'' [] 64),
               running (descriptor ''bbbbbbbb2'' ''other:v1'' ''db'' [] 64),
               stopped (descriptor ''cccccccc3'' ''myapp:v1'' ''web3'' [] 64),
               running (descriptor ''dddddddd4'' ''myapp:v1'' ''web4'' [] 64)] sc"


text \<open>The configurations handed to \<^verbatim>\<open>CreateContainer\<close>, in order of occurrence.\<close>

definition created_configs :: "(call \<times> error option) list \<Rightarrow> ContainerConfig list" where
  "created_configs tr = concat (map (\<lambda>(c, r). case c of CCreateContainer cfg nm \<Rightarrow> [cfg] | _ \<Rightarrow> []) tr)"

text \<open>
  Notions for the reference engine: the descriptors of a fleet in listing order; the two
  tests that \<^verbatim>\<open>ContainersByImage\<close> and \<^verbatim>\<open>IdenticalContainers\<close> apply to a listed
  container \<open>c\<close> against the reference \<open>container\<close>, taken together; the identifiers
  whose removal succeeded in a trace; a world whose script of faults is used up; and
  membership of \<open>b\<close> in the class that \<^verbatim>\<open>IdenticalContainers\<close> computes for the
  reference \<open>a\<close> on a fleet (with \<open>all = True\<close>, as \<^verbatim>\<open>Scale\<close> calls it).
\<close>

definition infos :: "fleet \<Rightarrow> ContainerInfo list" where
  "infos f = map rep_info (replicas f)"

definition same_class :: "ContainerInfo \<Rightarrow> ContainerInfo \<Rightarrow> bool" where
  "same_class container c \<longleftrightarrow>
     Index (Info_Image c) (Info_Image container) > - 1
   \<and> Config_Memory (Info_Config c) = Config_Memory (Info_Config container)
   \<and> length (Info_Args c) = length (Info_Args container)"

definition removed :: "(call \<times> error option) list \<Rightarrow> string list" where
  "removed tr = concat (map (\<lambda>(c, r). case c of CRemoveContainer x force \<Rightarrow> (if r = None then [x] else []) | _ \<Rightarrow> []) tr)"

definition quiet :: "fleet world \<Rightarrow> fleet world" where
  "quiet w = w\<lparr>engine := (engine w)\<lparr>script := []\<rparr>\<rparr>"

definition inClass :: "fleet \<Rightarrow> ContainerInfo \<Rightarrow> ContainerInfo \<Rightarrow> bool" where
  "inClass f a b \<longleftrightarrow>
     (case fst (IdenticalContainers fleet_client a True (start_world f)) of
        Inl err \<Rightarrow> False
      | Inr cs \<Rightarrow> b \<in> set cs)"

section \<open>Basic facts about the trace\<close>

lemmas engine_defs =
  fleet_demo_def fleet_of_def start_world_def descriptor_def running_def stopped_def hc0_def
  fleet_client_def fleet_list_def fleet_inspect_def fleet_pull_def fleet_create_def
  fleet_start_def fleet_kill_def fleet_remove_def fleet_insert_def next_fault_def
  listing_entry_def has_id_def fresh_id_def

lemmas manager_defs =
  logged_def logged0_def client_ListContainers_def client_InspectContainer_def
  client_PullImage_def client_CreateContainer_def client_StartContainer_def
  client_KillContainer_def client_RemoveContainer_def SaveEvent_def Containers_def
  Container_def ContainersByImage_def IdenticalContainers_def Destroy_def
  RedeployContainers_def deployEvent_def Run_def Run_attempt_def int32_def wg_Add_def Scale_def
  HasPrefix_def
  new_calls_def Let_def

lemma logged_calls: "logged c f w = (r, w') \<Longrightarrow> calls w' = calls w @ [(c, errOf r)]"
  by (auto simp: logged_def split: prod.splits)

lemma logged0_calls: "logged0 c f w = (r, w') \<Longrightarrow> calls w' = calls w @ [(c, r)]"
  by (auto simp: logged0_def split: prod.splits)

lemma list_calls:
  "client_ListContainers cl a s f w = (r, w') \<Longrightarrow> calls w' = calls w @ [(CListContainers a s f, errOf r)]"
  unfolding client_ListContainers_def by (rule logged_calls)

lemma inspect_calls:
  "client_InspectContainer cl cid w = (r, w') \<Longrightarrow> calls w' = calls w @ [(CInspectContainer cid, errOf r)]"
  unfolding client_InspectContainer_def by (rule logged_calls)

lemma pull_calls:
  "client_PullImage cl x w = (r, w') \<Longrightarrow> calls w' = calls w @ [(CPullImage x, r)]"
  unfolding client_PullImage_def by (rule logged0_calls)

lemma create_calls:
  "client_CreateContainer cl cfg nm w = (r, w') \<Longrightarrow> calls w' = calls w @ [(CCreateContainer cfg nm, errOf r)]"
  unfolding client_CreateContainer_def by (rule logged_calls)

lemma start_calls:
  "client_StartContainer cl cid hc w = (r, w') \<Longrightarrow> calls w' = calls w @ [(CStartContainer cid hc, r)]"
  unfolding client_StartContainer_def by (rule logged0_calls)

lemma kill_calls:
  "client_KillContainer cl cid sig w = (r, w') \<Longrightarrow> calls w' = calls w @ [(CKillContainer cid sig, r)]"
  unfolding client_KillContainer_def by (rule logged0_calls)

lemma remove_calls:
  "client_RemoveContainer cl cid force w = (r, w') \<Longrightarrow> calls w' = calls w @ [(CRemoveContainer cid force, r)]"
  unfolding client_RemoveContainer_def by (rule logged0_calls)

lemma save_calls:
  "SaveEvent cl ev w = (r, w') \<Longrightarrow> calls w' = calls w @ [(CInsertEvent ev, r)]"
  by (auto simp: SaveEvent_def split: prod.splits option.splits dest: logged0_calls)

lemma errOf_simps [simp]: "errOf (Inl e) = Some e" "errOf (Inr x) = None"
  by (simp_all add: errOf_def)

lemma new_calls_append [simp]: "calls w' = calls w @ tr \<Longrightarrow> new_calls w w' = tr"
  by (simp add: new_calls_def)

lemma Destroy_calls:
  assumes "Destroy cl cid w = (r, w')"
  shows "(\<exists>e. r = Some e \<and> calls w' = calls w @ [(CKillContainer cid ''kill'', Some e)])
       \<or> calls w' = calls w @ [(CKillContainer cid ''kill'', None), (CRemoveContainer cid True, r)]"
  using assms
  by (auto simp: Destroy_def split: prod.splits option.splits dest!: kill_calls remove_calls)

lemma Index_range: "- 1 \<le> Index s sub"
  by (induction s) (auto simp: Let_def)

lemma Index_sublist: "Index s sub > - 1 \<longleftrightarrow> sublist sub s"
proof (induction s)
  case Nil
  then show ?case by auto
next
  case (Cons c s)
  have "- 1 \<le> Index s sub" by (rule Index_range)
  with Cons show ?case
    by (cases sub) (auto simp: Let_def sublist_Cons_right)
qed

lemma proj_simps [simp]:
  "pulled [] = []" "pulled (tr @ tr') = pulled tr @ pulled tr'"
  "pulled ((c, r) # tr) = (case c of CPullImage x \<Rightarrow> [x] | _ \<Rightarrow> []) @ pulled tr"
  "inspected [] = []" "inspected (tr @ tr') = inspected tr @ inspected tr'"
  "inspected ((c, r) # tr) = (case c of CInspectContainer x \<Rightarrow> [x] | _ \<Rightarrow> []) @ inspected tr"
  "listings [] = []" "listings (tr @ tr') = listings tr @ listings tr'"
  "listings ((c, r) # tr) = (case c of CListContainers a s f \<Rightarrow> [a] | _ \<Rightarrow> []) @ listings tr"
  "inserted [] = []" "inserted (tr @ tr') = inserted tr @ inserted tr'"
  "inserted ((c, r) # tr) = (case c of CInsertEvent ev \<Rightarrow> [ev] | _ \<Rightarrow> []) @ inserted tr"
  "started [] = []" "started (tr @ tr') = started tr @ started tr'"
  "started ((c, r) # tr) = (case c of CStartContainer x hc \<Rightarrow> (if r = None then [x] else []) | _ \<Rightarrow> []) @ started tr"
  "clean [] = True" "clean (tr @ tr') = (clean tr \<and> clean tr')"
  "clean ((c, r) # tr) = ((replica_step c \<longrightarrow> r = None) \<and> clean tr)"
  by (simp_all add: pulled_def inspected_def listings_def inserted_def started_def clean_def)

lemma destroy_trace_proj:
  assumes "destroy_trace cid dt"
  shows "pulled dt = []" "inspected dt = []" "listings dt = []" "inserted dt = []"
    "started dt = []" "clean dt"
  using assms by (auto simp: destroy_trace_def)

lemma redeploy_trace_pulled:
  "redeploy_trace img cs d x tr \<Longrightarrow> set (pulled tr) \<subseteq> {img} \<and> inserted tr = [] \<and> listings tr = []"
  by (induction rule: redeploy_trace.induct) (auto simp: destroy_trace_proj)

lemma redeploy_trace_inspected:
  "redeploy_trace img cs d x tr \<Longrightarrow>
     prefix (inspected tr) (map Container_Id (matching img cs))
   \<and> length (pulled tr) \<le> length (inspected tr)"
  by (induction rule: redeploy_trace.induct)
     (auto simp: destroy_trace_proj matching_def Index_sublist)

lemma redeploy_trace_finished:
  "redeploy_trace img cs d x tr \<Longrightarrow> x = Finished d' \<Longrightarrow>
     inspected tr = map Container_Id (matching img cs)
   \<and> pulled tr = replicate (length (matching img cs)) img
   \<and> length (started tr) = length (matching img cs)
   \<and> (d' \<longleftrightarrow> d \<or> started tr \<noteq> [])
   \<and> clean tr"
  by (induction arbitrary: d' rule: redeploy_trace.induct)
     (auto simp: destroy_trace_proj matching_def Index_sublist)

lemma redeploy_trace_abort:
  "redeploy_trace img cs d x tr \<Longrightarrow> x = Abort e \<Longrightarrow>
     \<exists>pre c. tr = pre @ [(c, Some e)] \<and> replica_step c \<and> clean pre"
proof (induction rule: redeploy_trace.induct)
  case (rt_inspect_fails c rest deployed err)
  then show ?case by auto
next
  case (rt_pull_fails c rest deployed err)
  then have "[(CInspectContainer (Container_Id c), None), (CPullImage img, Some err)]
      = [(CInspectContainer (Container_Id c), None)] @ [(CPullImage img, Some e)]
      \<and> replica_step (CPullImage img) \<and> clean [(CInspectContainer (Container_Id c), None)]"
    by simp
  then show ?case by blast
next
  case (rt_create_fails c dt rest deployed err cfg)
  then have "[(CInspectContainer (Container_Id c), None), (CPullImage img, None)] @ dt @ [(CCreateContainer cfg '''', Some err)]
      = ([(CInspectContainer (Container_Id c), None), (CPullImage img, None)] @ dt) @ [(CCreateContainer cfg '''', Some e)]
      \<and> replica_step (CCreateContainer cfg '''')
      \<and> clean ([(CInspectContainer (Container_Id c), None), (CPullImage img, None)] @ dt)"
    by (simp add: destroy_trace_proj)
  then show ?case by blast
next
  case (rt_start_fails c dt rest deployed err cfg containerId hc)
  then have "[(CInspectContainer (Container_Id c), None), (CPullImage img, None)] @ dt
         @ [(CCreateContainer cfg '''', None), (CStartContainer containerId hc, Some err)]
      = ([(CInspectContainer (Container_Id c), None), (CPullImage img, None)] @ dt
         @ [(CCreateContainer cfg '''', None)]) @ [(CStartContainer containerId hc, Some e)]
      \<and> replica_step (CStartContainer containerId hc)
      \<and> clean ([(CInspectContainer (Container_Id c), None), (CPullImage img, None)] @ dt
         @ [(CCreateContainer cfg '''', None)])"
    by (simp add: destroy_trace_proj)
  then show ?case by blast
next
  case (rt_step c dt containerId rest x tr deployed cfg hc)
  then obtain pre c' where p: "tr = pre @ [(c', Some e)]" "replica_step c'" "clean pre" by blast
  let ?seg = "[(CInspectContainer (Container_Id c), None), (CPullImage img, None)] @ dt
         @ [(CCreateContainer cfg '''', None), (CStartContainer containerId hc, None)]"
  from p rt_step.hyps(2) have "?seg @ tr = (?seg @ pre) @ [(c', Some e)] \<and> replica_step c' \<and> clean (?seg @ pre)"
    by (simp add: destroy_trace_proj)
  then show ?case by (metis append.assoc)
qed auto

lemma redeploy_trace_crash:
  "redeploy_trace img cs d x tr \<Longrightarrow> x = Crashed \<Longrightarrow> clean tr \<and> started tr \<noteq> []"
  by (induction rule: redeploy_trace.induct) (auto simp: destroy_trace_proj)


section \<open>The loop of \<^verbatim>\<open>RedeployContainers\<close> and its traces\<close>

lemma Destroy_trace:
  "Destroy cl cid w = (r, w') \<Longrightarrow> \<exists>dt. calls w' = calls w @ dt \<and> destroy_trace cid dt"
  by (drule Destroy_calls) (auto simp: destroy_trace_def)

lemma Redeploy_loop_trace:
  "Redeploy_loop cl img cs d w = (x, w') \<Longrightarrow>
     \<exists>tr. calls w' = calls w @ tr \<and> redeploy_trace img cs d x tr"
proof (induction cs arbitrary: d w)
  case Nil
  then show ?case by (auto intro: rt_end)
next
  case (Cons c rest)
  show ?case
  proof (cases "Index (Container_Image c) img > - 1")
    case False
    with Cons.prems have "Redeploy_loop cl img rest d w = (x, w')" by simp
    from Cons.IH [OF this] False show ?thesis by (auto intro: rt_skip)
  next
    case m: True
    obtain ri w1 where i: "client_InspectContainer cl (Container_Id c) w = (ri, w1)"
      by (cases "client_InspectContainer cl (Container_Id c) w")
    note c1 = inspect_calls [OF i]
    show ?thesis
    proof (cases ri)
      case (Inl err)
      with Cons.prems m i c1 show ?thesis by (auto intro: rt_inspect_fails)
    next
      case (Inr info)
      obtain rp w2 where p: "client_PullImage cl img w1 = (rp, w2)"
        by (cases "client_PullImage cl img w1")
      note c2 = pull_calls [OF p]
      show ?thesis
      proof (cases rp)
        case (Some err)
        with Cons.prems m i Inr p c1 c2 show ?thesis by (auto intro: rt_pull_fails)
      next
        case None
        obtain rd w3 where d: "Destroy cl (Container_Id c) w2 = (rd, w3)"
          by (cases "Destroy cl (Container_Id c) w2")
        from Destroy_trace [OF d] obtain dt where
          c3: "calls w3 = calls w2 @ dt" and dt: "destroy_trace (Container_Id c) dt" by blast
        obtain rc w4 where cr: "client_CreateContainer cl (Info_Config info) '''' w3 = (rc, w4)"
          by (cases "client_CreateContainer cl (Info_Config info) '''' w3")
        note c4 = create_calls [OF cr]
        show ?thesis
        proof (cases rc)
          case (Inl err)
          with Cons.prems m i Inr p None d cr have "x = Abort err" "w' = w4" by auto
          with c1 c2 c3 c4 Inr None Inl rt_create_fails [OF m dt, where rest=rest and deployed=d and err=err and cfg="Info_Config info"]
          show ?thesis by auto
        next
          case cid: (Inr containerId)
          obtain rs w5 where s: "client_StartContainer cl containerId (Info_HostConfig info) w4 = (rs, w5)"
            by (cases "client_StartContainer cl containerId (Info_HostConfig info) w4")
          note c5 = start_calls [OF s]
          show ?thesis
          proof (cases rs)
            case (Some err)
            with Cons.prems m i Inr p None d cr cid s have "x = Abort err" "w' = w5" by auto
            with c1 c2 c3 c4 c5 Inr None cid Some
              rt_start_fails [OF m dt, where rest=rest and deployed=d and err=err and cfg="Info_Config info" and containerId=containerId and hc="Info_HostConfig info"]
            show ?thesis by auto
          next
            case ok: None
            show ?thesis
            proof (cases "length containerId < 8")
              case True
              with Cons.prems m i Inr p None d cr cid s ok have "x = Crashed" "w' = w5" by auto
              with c1 c2 c3 c4 c5 Inr None cid ok
                rt_crash [OF m dt True, where rest=rest and deployed=d and cfg="Info_Config info" and hc="Info_HostConfig info"]
              show ?thesis by auto
            next
              case False
              with Cons.prems m i Inr p None d cr cid s ok
              have "Redeploy_loop cl img rest True w5 = (x, w')" by auto
              from Cons.IH [OF this] obtain tr where
                t: "calls w' = calls w5 @ tr" "redeploy_trace img rest True x tr" by blast
              with c1 c2 c3 c4 c5 Inr None cid ok
                rt_step [OF m dt False t(2), where deployed=d and cfg="Info_Config info" and hc="Info_HostConfig info"]
              show ?thesis by auto
            qed
          qed
        qed
      qed
    qed
  qed
qed

lemma Redeploy_shape:
  assumes "RedeployContainers cl img w = (r, w')"
  shows "(\<exists>e. r = Returns (Some e) \<and> new_calls w w' = [(CListContainers False False '''', Some e)]
              \<and> fst (rtListContainers cl False False '''' (engine w)) = Inl e)
       \<or> (\<exists>containers x tr post.
              fst (rtListContainers cl False False '''' (engine w)) = Inr containers
            \<and> redeploy_trace img containers False x tr
            \<and> new_calls w w' = (CListContainers False False '''', None) # tr @ post
            \<and> (case x of
                  Abort e \<Rightarrow> r = Returns (Some e) \<and> post = []
                | Crashed \<Rightarrow> r = Panics \<and> post = []
                | Finished d \<Rightarrow>
                    (if d then \<exists>now re. post = [(CInsertEvent (deployEvent img now), re)] \<and> r = Returns re
                     else post = [] \<and> r = Returns None)))"
proof -
  obtain rl w1 where l: "client_ListContainers cl False False '''' w = (rl, w1)"
    by (cases "client_ListContainers cl False False '''' w")
  note c1 = list_calls [OF l]
  from l have rl: "fst (rtListContainers cl False False '''' (engine w)) = rl"
    by (auto simp: client_ListContainers_def logged_def split: prod.splits)
  show ?thesis
  proof (cases rl)
    case (Inl e)
    with assms l c1 rl show ?thesis by (auto simp: RedeployContainers_def Containers_def)
  next
    case (Inr containers)
    obtain x w2 where lp: "Redeploy_loop cl img containers False w1 = (x, w2)"
      by (cases "Redeploy_loop cl img containers False w1")
    from Redeploy_loop_trace [OF lp] obtain tr where
      t: "calls w2 = calls w1 @ tr" "redeploy_trace img containers False x tr" by blast
    have "\<exists>post. new_calls w w' = (CListContainers False False '''', None) # tr @ post
            \<and> (case x of
                  Abort e \<Rightarrow> r = Returns (Some e) \<and> post = []
                | Crashed \<Rightarrow> r = Panics \<and> post = []
                | Finished d \<Rightarrow>
                    (if d then \<exists>now re. post = [(CInsertEvent (deployEvent img now), re)] \<and> r = Returns re
                     else post = [] \<and> r = Returns None))"
    proof (cases x)
      case (Abort e)
      with assms l Inr lp c1 t show ?thesis
        by (auto simp: RedeployContainers_def Containers_def)
    next
      case Crashed
      with assms l Inr lp c1 t show ?thesis
        by (auto simp: RedeployContainers_def Containers_def)
    next
      case (Finished d)
      show ?thesis
      proof (cases d)
        case False
        with Finished assms l Inr lp c1 t show ?thesis
          by (auto simp: RedeployContainers_def Containers_def)
      next
        case True
        obtain re w3 where s: "SaveEvent cl (deployEvent img (rtNow cl (engine w2))) w2 = (re, w3)"
          by (cases "SaveEvent cl (deployEvent img (rtNow cl (engine w2))) w2")
        note c3 = save_calls [OF s]
        from True Finished assms l Inr lp s have "r = Returns re" "w' = w3"
          by (auto simp: RedeployContainers_def Containers_def split: option.splits)
        with True Finished c1 c3 t Inr show ?thesis by auto
      qed
    qed
    then obtain post where
      "new_calls w w' = (CListContainers False False '''', None) # tr @ post
            \<and> (case x of
                  Abort e \<Rightarrow> r = Returns (Some e) \<and> post = []
                | Crashed \<Rightarrow> r = Panics \<and> post = []
                | Finished d \<Rightarrow>
                    (if d then \<exists>now re. post = [(CInsertEvent (deployEvent img now), re)] \<and> r = Returns re
                     else post = [] \<and> r = Returns None))" ..
    with Inr rl t(2) have
      "fst (rtListContainers cl False False '''' (engine w)) = Inr containers
            \<and> redeploy_trace img containers False x tr
            \<and> new_calls w w' = (CListContainers False False '''', None) # tr @ post
            \<and> (case x of
                  Abort e \<Rightarrow> r = Returns (Some e) \<and> post = []
                | Crashed \<Rightarrow> r = Panics \<and> post = []
                | Finished d \<Rightarrow>
                    (if d then \<exists>now re. post = [(CInsertEvent (deployEvent img now), re)] \<and> r = Returns re
                     else post = [] \<and> r = Returns None))" by simp
    then show ?thesis by blast
  qed
qed

section \<open>\<^verbatim>\<open>Destroy\<close>\<close>

text \<open>
  Claim C5, as amended. \<^verbatim>\<open>Destroy\<close> sends the kill first. When the kill fails, the
  call returns that error and no removal is requested; when the kill succeeds, the removal
  is requested with force, and the call returns what the removal returned. So the call
  reports success exactly when the kill and the removal both succeeded, and a removal that
  fails after a successful kill is surfaced to the caller.
\<close>

theorem Destroy_removal_after_successful_kill:
  assumes "Destroy cl cid w = (r, w')"
  shows "((\<exists>e. r = Some e \<and> new_calls w w' = [(CKillContainer cid ''kill'', Some e)])
          \<or> new_calls w w' = [(CKillContainer cid ''kill'', None), (CRemoveContainer cid True, r)])
       \<and> (r = None \<longleftrightarrow>
            new_calls w w' = [(CKillContainer cid ''kill'', None), (CRemoveContainer cid True, None)])"
  using Destroy_calls [OF assms] by auto

text \<open>
  C5 as stated asks for the removal whatever the kill did. Against an engine whose kill
  fails, the only call made is the kill.
\<close>

theorem Destroy_skips_removal_counterexample:
  "fst (Destroy fleet_client ''aaaaaaaa1'' (start_world (fleet_demo [Some (Error ''engine unreachable'')])))
     = Some (Error ''engine unreachable'')
   \<and> calls (snd (Destroy fleet_client ''aaaaaaaa1''
                   (start_world (fleet_demo [Some (Error ''engine unreachable'')]))))
     = [(CKillContainer ''aaaaaaaa1'' ''kill'', Some (Error ''engine unreachable''))]"
  by (simp add: manager_defs engine_defs)

theorem Destroy_removal_after_successful_kill_witness:
  "new_calls (start_world (fleet_demo []))
             (snd (Destroy fleet_client ''aaaaaaaa1'' (start_world (fleet_demo []))))
     = [(CKillContainer ''aaaaaaaa1'' ''kill'', None), (CRemoveContainer ''aaaaaaaa1'' True, None)]"
proof -
  have h: "Destroy fleet_client ''aaaaaaaa1'' (start_world (fleet_demo []))
             = (None, snd (Destroy fleet_client ''aaaaaaaa1'' (start_world (fleet_demo []))))"
    by (simp add: manager_defs engine_defs)
  from Destroy_removal_after_successful_kill [OF h] show ?thesis by simp
qed

section \<open>\<^verbatim>\<open>Container\<close>\<close>

lemma Container_loop_find:
  "Container_loop cl cid containers w =
     (case find (\<lambda>cnt. prefix cid (Container_Id cnt)) containers of
        None \<Rightarrow> ((None, None), w)
      | Some cnt \<Rightarrow>
          (case client_InspectContainer cl (Container_Id cnt) w of
             (Inl err, w2) \<Rightarrow> ((None, Some err), w2)
           | (Inr info, w2) \<Rightarrow> ((Some info, None), w2)))"
  by (induction containers) (simp_all add: HasPrefix_def)

text \<open>
  Claim C10. Once the listing (with \<open>all = True\<close>) has succeeded, \<^verbatim>\<open>Container\<close>
  answers for the first listed container, in listing order, whose identifier has the given
  string as a prefix: it inspects that container and returns the descriptor (or the
  inspection's error). When no listed identifier has the prefix it returns neither a
  descriptor nor an error, \<^verbatim>\<open>(nil, nil)\<close>, and makes no further call.
\<close>

theorem Container_first_prefix_match:
  assumes "client_ListContainers cl True False '''' w = (Inr containers, w1)"
  shows "Container cl cid w =
     (case find (\<lambda>cnt. prefix cid (Container_Id cnt)) containers of
        None \<Rightarrow> ((None, None), w1)
      | Some cnt \<Rightarrow>
          (case client_InspectContainer cl (Container_Id cnt) w1 of
             (Inl err, w2) \<Rightarrow> ((None, Some err), w2)
           | (Inr info, w2) \<Rightarrow> ((Some info, None), w2)))"
  using assms by (simp add: Container_def Container_loop_find)


theorem Container_first_prefix_match_witness:
  "fst (Container fleet_client ''bbbb'' (start_world (fleet_demo [])))
     = (Some (descriptor ''bbbbbbbb2'' ''other:v1'' ''db'' [] 64), None)
   \<and> fst (Container fleet_client ''zz'' (start_world (fleet_demo []))) = (None, None)
   \<and> calls (snd (Container fleet_client ''zz'' (start_world (fleet_demo []))))
     = [(CListContainers True False '''', None)]"
proof -
  let ?w = "start_world (fleet_demo [])"
  let ?cs = "map listing_entry (replicas (fleet_demo []))"
  have h: "client_ListContainers fleet_client True False '''' ?w
             = (Inr ?cs, snd (client_ListContainers fleet_client True False '''' ?w))"
    by (simp add: manager_defs engine_defs)
  from Container_first_prefix_match [OF h, of "''bbbb''"]
       Container_first_prefix_match [OF h, of "''zz''"]
  show ?thesis by (simp add: manager_defs engine_defs)
qed

section \<open>\<^verbatim>\<open>RedeployContainers\<close>\<close>

text \<open>In the model the parameter \<^verbatim>\<open>image\<close> of the source is called \<open>img\<close>.\<close>

text \<open>
  Claim C2, as amended. Every pull that \<^verbatim>\<open>RedeployContainers\<close> requests is a pull of
  the string the caller supplied, whatever the image reference of the replica being
  replaced; and when the call returns without error, it has pulled that string once per
  listed container whose image reference contains it.
\<close>

theorem Redeploy_pulls_given_image:
  assumes "RedeployContainers cl img w = (r, w')"
  shows "set (pulled (new_calls w w')) \<subseteq> {img}
       \<and> (\<forall>containers. fst (rtListContainers cl False False '''' (engine w)) = Inr containers
             \<and> r = Returns None
            \<longrightarrow> pulled (new_calls w w') = replicate (length (matching img containers)) img)"
  using Redeploy_shape [OF assms]
proof (elim disjE exE conjE)
  fix e assume "new_calls w w' = [(CListContainers False False '''', Some e)]" "r = Returns (Some e)"
  then show ?thesis by simp
next
  fix containers x tr post
  assume a: "fst (rtListContainers cl False False '''' (engine w)) = Inr containers"
    "redeploy_trace img containers False x tr"
    "new_calls w w' = (CListContainers False False '''', None) # tr @ post"
    "case x of Abort e \<Rightarrow> r = Returns (Some e) \<and> post = []
       | Crashed \<Rightarrow> r = Panics \<and> post = []
       | Finished d \<Rightarrow>
           (if d then \<exists>now re. post = [(CInsertEvent (deployEvent img now), re)] \<and> r = Returns re
            else post = [] \<and> r = Returns None)"
  from a(4) have post: "pulled post = []"
    by (auto split: loop_exit.splits if_splits)
  from a(4) have fin: "r = Returns None \<Longrightarrow> \<exists>d. x = Finished d"
    by (cases x) auto
  from redeploy_trace_pulled [OF a(2)] a(3) post
  have 1: "set (pulled (new_calls w w')) \<subseteq> {img}" by simp
  have 2: "pulled (new_calls w w') = replicate (length (matching img containers)) img"
    if "r = Returns None"
  proof -
    from fin [OF that] obtain d where "x = Finished d" ..
    from redeploy_trace_finished [OF a(2) this] a(3) post show ?thesis by simp
  qed
  from 1 2 a(1) show ?thesis by auto
qed

text \<open>
  C2 as stated expects the replica's own reference \<^verbatim>\<open>myapp:v1\<close> to be pulled. With two
  running replicas of \<^verbatim>\<open>myapp:v1\<close>, redeploying \<^verbatim>\<open>myapp\<close> pulls \<^verbatim>\<open>myapp\<close> twice.
\<close>

theorem Redeploy_pulls_substring_counterexample:
  "fst (RedeployContainers fleet_client ''myapp'' (start_world (fleet_demo []))) = Returns None
   \<and> pulled (calls (snd (RedeployContainers fleet_client ''myapp'' (start_world (fleet_demo [])))))
       = [''myapp'', ''myapp'']
   \<and> inspected (calls (snd (RedeployContainers fleet_client ''myapp'' (start_world (fleet_demo [])))))
       = [''aaaaaaaa1'', ''dddddddd4'']"
  by (simp add: manager_defs engine_defs)

theorem Redeploy_pulls_given_image_witness:
  "pulled (new_calls (start_world (fleet_demo []))
                     (snd (RedeployContainers fleet_client ''myapp'' (start_world (fleet_demo [])))))
     = [''myapp'', ''myapp'']"
proof -
  let ?w = "start_world (fleet_demo [])"
  have h: "RedeployContainers fleet_client ''myapp'' ?w
             = (Returns None, snd (RedeployContainers fleet_client ''myapp'' ?w))"
    by (simp add: manager_defs engine_defs)
  have l: "fst (rtListContainers fleet_client False False '''' (engine ?w))
             = Inr [listing_entry (running (descriptor ''aaaaaaaa1'' ''myapp:v1'' ''web1'' [] 64)),
                    listing_entry (running (descriptor ''bbbbbbbb2'' ''other:v1'' ''db'' [] 64)),
                    listing_entry (running (descriptor ''dddddddd4'' ''myapp:v1'' ''web4'' [] 64))]"
    by (simp add: engine_defs)
  from Redeploy_pulls_given_image [OF h] l show ?thesis
    by (simp add: matching_def engine_defs Index_sublist [symmetric])
qed

text \<open>
  Claim C3, as amended. \<^verbatim>\<open>RedeployContainers\<close> starts with one listing, requested with
  \<open>all = False\<close> (the running containers only), and makes no other listing. The replicas it
  goes on to inspect are, in listing order, listed containers whose image reference contains
  the given string; when the call returns without error they are all of those.
\<close>

theorem Redeploy_selects_from_running_listing:
  assumes "RedeployContainers cl img w = (r, w')"
  shows "(\<exists>res rest. new_calls w w' = (CListContainers False False '''', res) # rest)
       \<and> listings (new_calls w w') = [False]
       \<and> (\<forall>containers. fst (rtListContainers cl False False '''' (engine w)) = Inr containers
            \<longrightarrow> prefix (inspected (new_calls w w')) (map Container_Id (matching img containers))
              \<and> (r = Returns None
                   \<longrightarrow> inspected (new_calls w w') = map Container_Id (matching img containers)))"
  using Redeploy_shape [OF assms]
proof (elim disjE exE conjE)
  fix e assume "new_calls w w' = [(CListContainers False False '''', Some e)]" "r = Returns (Some e)"
    "fst (rtListContainers cl False False '''' (engine w)) = Inl e"
  then show ?thesis by simp
next
  fix containers x tr post
  assume a: "fst (rtListContainers cl False False '''' (engine w)) = Inr containers"
    "redeploy_trace img containers False x tr"
    "new_calls w w' = (CListContainers False False '''', None) # tr @ post"
    "case x of Abort e \<Rightarrow> r = Returns (Some e) \<and> post = []
       | Crashed \<Rightarrow> r = Panics \<and> post = []
       | Finished d \<Rightarrow>
           (if d then \<exists>now re. post = [(CInsertEvent (deployEvent img now), re)] \<and> r = Returns re
            else post = [] \<and> r = Returns None)"
  from a(4) have post: "inspected post = []" "listings post = []"
    by (auto split: loop_exit.splits if_splits)
  from a(4) have fin: "r = Returns None \<Longrightarrow> \<exists>d. x = Finished d"
    by (cases x) auto
  from redeploy_trace_pulled [OF a(2)] a(3) post
  have 1: "listings (new_calls w w') = [False]" by simp
  from redeploy_trace_inspected [OF a(2)] a(3) post
  have 2: "prefix (inspected (new_calls w w')) (map Container_Id (matching img containers))" by simp
  have 3: "inspected (new_calls w w') = map Container_Id (matching img containers)"
    if "r = Returns None"
  proof -
    from fin [OF that] obtain d where "x = Finished d" ..
    from redeploy_trace_finished [OF a(2) this] a(3) post show ?thesis by simp
  qed
  from 1 2 3 a(1) a(3) show ?thesis by auto
qed

text \<open>
  C3 as stated has the stopped replicas considered too. A fleet whose only replica is a
  stopped \<^verbatim>\<open>myapp:v1\<close> is left alone: the listing is the only call.
\<close>

theorem Redeploy_skips_stopped_counterexample:
  "Index ''myapp:v1'' ''myapp'' > - 1
   \<and> fst (RedeployContainers fleet_client ''myapp''
            (start_world (fleet_of [stopped (descriptor ''cccccccc3'' ''myapp:v1'' ''web3'' [] 64)] [])))
       = Returns None
   \<and> calls (snd (RedeployContainers fleet_client ''myapp''
            (start_world (fleet_of [stopped (descriptor ''cccccccc3'' ''myapp:v1'' ''web3'' [] 64)] []))))
       = [(CListContainers False False '''', None)]
   \<and> replicas (engine (snd (RedeployContainers fleet_client ''myapp''
            (start_world (fleet_of [stopped (descriptor ''cccccccc3'' ''myapp:v1'' ''web3'' [] 64)] [])))))
       = [stopped (descriptor ''cccccccc3'' ''myapp:v1'' ''web3'' [] 64)]"
  by (simp add: manager_defs engine_defs)

theorem Redeploy_selects_from_running_listing_witness:
  "inspected (new_calls (start_world (fleet_demo []))
                (snd (RedeployContainers fleet_client ''myapp'' (start_world (fleet_demo [])))))
     = [''aaaaaaaa1'', ''dddddddd4'']
   \<and> listings (new_calls (start_world (fleet_demo []))
                (snd (RedeployContainers fleet_client ''myapp'' (start_world (fleet_demo [])))))
     = [False]"
proof -
  let ?w = "start_world (fleet_demo [])"
  have h: "RedeployContainers fleet_client ''myapp'' ?w
             = (Returns None, snd (RedeployContainers fleet_client ''myapp'' ?w))"
    by (simp add: manager_defs engine_defs)
  have l: "fst (rtListContainers fleet_client False False '''' (engine ?w))
             = Inr [listing_entry (running (descriptor ''aaaaaaaa1'' ''myapp:v1'' ''web1'' [] 64)),
                    listing_entry (running (descriptor ''bbbbbbbb2'' ''other:v1'' ''db'' [] 64)),
                    listing_entry (running (descriptor ''dddddddd4'' ''myapp:v1'' ''web4'' [] 64))]"
    by (simp add: engine_defs)
  from Redeploy_selects_from_running_listing [OF h] l show ?thesis
    by (simp add: matching_def engine_defs Index_sublist [symmetric])
qed

text \<open>
  The steps of the loop whose error is checked. When configuration capture (inspect),
  pull, create or start fails for a matched replica, that failed call is the last call of
  \<^verbatim>\<open>RedeployContainers\<close> and the call returns its error: no later-listed replica is
  touched.
\<close>

lemma Redeploy_aborts_on_checked_step:
  assumes "RedeployContainers cl img w = (r, w')"
    and "new_calls w w' = pre @ (c, Some e) # post"
    and "replica_step c"
  shows "post = [] \<and> r = Returns (Some e)"
  using Redeploy_shape [OF assms(1)]
proof (elim disjE exE conjE)
  fix e' assume "new_calls w w' = [(CListContainers False False '''', Some e')]"
  with assms(2,3) show ?thesis by (cases pre) auto
next
  fix containers x tr post'
  assume a: "redeploy_trace img containers False x tr"
    "new_calls w w' = (CListContainers False False '''', None) # tr @ post'"
    "case x of Abort e \<Rightarrow> r = Returns (Some e) \<and> post' = []
       | Crashed \<Rightarrow> r = Panics \<and> post' = []
       | Finished d \<Rightarrow>
           (if d then \<exists>now re. post' = [(CInsertEvent (deployEvent img now), re)] \<and> r = Returns re
            else post' = [] \<and> r = Returns None)"
  from assms(2) have mem: "(c, Some e) \<in> set (new_calls w w')" by simp
  have nc: "\<not> clean (new_calls w w')"
    using assms(2,3) by simp
  show ?thesis
  proof (cases x)
    case (Abort e')
    from redeploy_trace_abort [OF a(1) Abort] obtain p c' where
      p: "tr = p @ [(c', Some e')]" "replica_step c'" "clean p" by blast
    from Abort a(3) have r: "r = Returns (Some e')" "post' = []" by auto
    let ?p = "(CListContainers False False '''', None) # p"
    have eq: "pre @ (c, Some e) # post = ?p @ [(c', Some e')]" and cp: "clean ?p"
      using assms(2) a(2) p r by auto
    have "post = []"
    proof (rule ccontr)
      assume "post \<noteq> []"
      then obtain q z where "post = q @ [z]" by (metis rev_exhaust)
      with eq have "?p @ [(c', Some e')] = (pre @ (c, Some e) # q) @ [z]" by simp
      then have "?p = pre @ (c, Some e) # q" by (simp only: append1_eq_conv)
      then have "clean ?p = clean (pre @ (c, Some e) # q)" by (rule arg_cong)
      with cp assms(3) show False by simp
    qed
    with eq r show ?thesis by auto
  next
    case Crashed
    with a redeploy_trace_crash [OF a(1) Crashed] nc show ?thesis by auto
  next
    case (Finished d)
    with a redeploy_trace_finished [OF a(1) Finished] nc show ?thesis
      by (auto split: if_splits)
  qed
qed

lemma Redeploy_aborts_on_checked_step_example:
  "fst (RedeployContainers fleet_client ''myapp''
          (start_world (fleet_demo [None, None, None, None, None, None, None, None,
                                    Some (Error ''registry unreachable'')])))
     = Returns (Some (Error ''registry unreachable''))"
proof -
  let ?w = "start_world (fleet_demo [None, None, None, None, None, None, None, None,
                                    Some (Error ''registry unreachable'')])"
  let ?w' = "snd (RedeployContainers fleet_client ''myapp'' ?w)"
  have h1: "RedeployContainers fleet_client ''myapp'' ?w
              = (fst (RedeployContainers fleet_client ''myapp'' ?w), ?w')"
    by simp
  have h2: "new_calls ?w ?w'
              = butlast (new_calls ?w ?w') @ (CPullImage ''myapp'', Some (Error ''registry unreachable'')) # []"
    by (simp add: manager_defs engine_defs)
  have h3: "replica_step (CPullImage ''myapp'')" by simp
  from Redeploy_aborts_on_checked_step [OF h1 h2 h3] show ?thesis by simp
qed

text \<open>
  Claim C4 has a failure of any per-replica step, the destroy included, abort the call at
  once. The loop checks the error of the inspect, the pull, the create and the start, but
  the result of \<^verbatim>\<open>m.Destroy(c.Id)\<close> is dropped (\<^verbatim>\<open>Scale\<close> checks the same call and
  returns its error). With a kill that fails for the first matched replica, the call does
  not abort: it creates and starts the replacement although the old replica is still
  there, goes on to the next matched replica, and returns without error.
\<close>

theorem Redeploy_continues_after_failed_destroy:
  "fst (RedeployContainers fleet_client ''myapp''
          (start_world (fleet_demo [None, None, None, Some (Error ''kill refused'')])))
     = Returns None
   \<and> take 3 (drop 3 (calls (snd (RedeployContainers fleet_client ''myapp''
          (start_world (fleet_demo [None, None, None, Some (Error ''kill refused'')]))))))
     = [(CKillContainer ''aaaaaaaa1'' ''kill'', Some (Error ''kill refused'')),
        (CCreateContainer (Info_Config (descriptor ''aaaaaaaa1'' ''myapp:v1'' ''web1'' [] 64)) '''', None),
        (CStartContainer ''replica-'' hc0, None)]
   \<and> inspected (calls (snd (RedeployContainers fleet_client ''myapp''
          (start_world (fleet_demo [None, None, None, Some (Error ''kill refused'')])))))
     = [''aaaaaaaa1'', ''dddddddd4'']"
  by (simp add: manager_defs engine_defs)

text \<open>
  Claim C8, as amended. \<^verbatim>\<open>RedeployContainers\<close> hands at most one event to the sink, the
  aggregate \<^verbatim>\<open>deploy\<close> event naming the given image string, and it does so exactly when
  at least one replacement was started, no checked per-replica step failed and the call did
  not panic: one event for a call that ran through the whole listing, none for a call that
  aborted inside the loop.
\<close>

theorem Redeploy_event_only_after_full_pass:
  assumes "RedeployContainers cl img w = (r, w')"
  shows "\<exists>now. inserted (new_calls w w') =
           (if started (new_calls w w') \<noteq> [] \<and> clean (new_calls w w') \<and> r \<noteq> Panics
            then [deployEvent img now] else [])"
  using Redeploy_shape [OF assms]
proof (elim disjE exE conjE)
  fix e assume "new_calls w w' = [(CListContainers False False '''', Some e)]"
  then show ?thesis by simp
next
  fix containers x tr post
  assume a: "redeploy_trace img containers False x tr"
    "new_calls w w' = (CListContainers False False '''', None) # tr @ post"
    "case x of Abort e \<Rightarrow> r = Returns (Some e) \<and> post = []
       | Crashed \<Rightarrow> r = Panics \<and> post = []
       | Finished d \<Rightarrow>
           (if d then \<exists>now re. post = [(CInsertEvent (deployEvent img now), re)] \<and> r = Returns re
            else post = [] \<and> r = Returns None)"
  note p = redeploy_trace_pulled [OF a(1)]
  show ?thesis
  proof (cases x)
    case (Abort e)
    from redeploy_trace_abort [OF a(1) Abort] have "\<not> clean tr" by auto
    with Abort a p show ?thesis by simp
  next
    case Crashed
    with a p show ?thesis by simp
  next
    case (Finished d)
    note f = redeploy_trace_finished [OF a(1) Finished]
    show ?thesis
    proof (cases d)
      case True
      with Finished a(3) obtain now re where
        "post = [(CInsertEvent (deployEvent img now), re)]" "r = Returns re" by auto
      with True a(2) p f show ?thesis by auto
    next
      case False
      with Finished a p f show ?thesis by simp
    qed
  qed
qed

text \<open>
  C8 as stated has the event emitted even when the call aborts later. With the pull failing
  for the second matched replica, the first replica has been replaced, the call returns the
  error, and the sink is empty.
\<close>

theorem Redeploy_abort_drops_event_counterexample:
  "fst (RedeployContainers fleet_client ''myapp''
          (start_world (fleet_demo [None, None, None, None, None, None, None, None,
                                    Some (Error ''registry unreachable'')])))
     = Returns (Some (Error ''registry unreachable''))
   \<and> started (calls (snd (RedeployContainers fleet_client ''myapp''
          (start_world (fleet_demo [None, None, None, None, None, None, None, None,
                                    Some (Error ''registry unreachable'')])))))
     = [''replica-'']
   \<and> inserted (calls (snd (RedeployContainers fleet_client ''myapp''
          (start_world (fleet_demo [None, None, None, None, None, None, None, None,
                                    Some (Error ''registry unreachable'')])))))
     = []
   \<and> sink (engine (snd (RedeployContainers fleet_client ''myapp''
          (start_world (fleet_demo [None, None, None, None, None, None, None, None,
                                    Some (Error ''registry unreachable'')])))))
     = []"
  by (simp add: manager_defs engine_defs)

theorem Redeploy_event_only_after_full_pass_witness:
  "inserted (new_calls (start_world (fleet_demo []))
               (snd (RedeployContainers fleet_client ''myapp'' (start_world (fleet_demo [])))))
     = [deployEvent ''myapp'' 1000]
   \<and> sink (engine (snd (RedeployContainers fleet_client ''myapp'' (start_world (fleet_demo [])))))
     = [\<lparr>Event_Type = ''deploy'', Event_Container = '''', Event_Time = 1000,
         Event_Message = ''myapp deployed'', Event_Tags = [''deploy'']\<rparr>]"
proof -
  let ?w = "start_world (fleet_demo [])"
  have h: "RedeployContainers fleet_client ''myapp'' ?w
             = (Returns None, snd (RedeployContainers fleet_client ''myapp'' ?w))"
    by (simp add: manager_defs engine_defs)
  from Redeploy_event_only_after_full_pass [OF h] show ?thesis
    by (simp add: manager_defs engine_defs)
qed


section \<open>\<^verbatim>\<open>Run\<close> and scaling up\<close>

lemma created_simps [simp]:
  "created_configs [] = []" "created_configs (tr @ tr') = created_configs tr @ created_configs tr'"
  "created_configs ((c, r) # tr) = (case c of CCreateContainer cfg nm \<Rightarrow> [cfg] | _ \<Rightarrow> []) @ created_configs tr"
  by (simp_all add: created_configs_def)

lemma int32_id: "0 \<le> x \<Longrightarrow> x < 2 ^ 31 \<Longrightarrow> int32 x = x"
  by (simp add: int32_def)

lemma wg_Add_start: "0 \<le> count \<Longrightarrow> count < 2 ^ 31 \<Longrightarrow> wg_Add 0 count = Some count"
  by (simp add: wg_Add_def int32_id)

lemma wg_Add_Done: "1 \<le> v \<Longrightarrow> v < 2 ^ 31 \<Longrightarrow> wg_Add v (- 1) = Some (v - 1)"
  by (simp add: wg_Add_def int32_id)

lemma wg_Add_panics: "2 ^ 31 \<le> count \<Longrightarrow> count < 2 ^ 32 \<Longrightarrow> wg_Add 0 count = None"
proof -
  assume a: "2 ^ 31 \<le> count" "count < 2 ^ 32"
  have e: "count + 2147483648 = (count - 2147483648) + 1 * 4294967296" by simp
  have "(count + 2147483648) mod 4294967296 = (count - 2147483648) mod 4294967296"
    unfolding e by (rule mod_mult_self1)
  also from a have "\<dots> = count - 2147483648" by simp
  finally show ?thesis using a by (simp add: wg_Add_def int32_def)
qed

lemma Run_attempt_trace:
  assumes "Run_attempt cl config False (st, w) = (st', w')"
  shows "\<exists>tr. calls w' = calls w @ tr \<and> created_configs tr = [config] \<and> pulled tr = []"
proof -
  obtain rc w2 where c: "client_CreateContainer cl config '''' w = (rc, w2)"
    by (cases "client_CreateContainer cl config '''' w")
  note c1 = create_calls [OF c]
  show ?thesis
  proof (cases rc)
    case (Inl err)
    with assms c c1 show ?thesis by (auto simp: Run_attempt_def)
  next
    case (Inr containerId)
    obtain rs w3 where s: "client_StartContainer cl containerId (Config_HostConfig config) w2 = (rs, w3)"
      by (cases "client_StartContainer cl containerId (Config_HostConfig config) w2")
    note c2 = start_calls [OF s]
    from assms c Inr s have "w' = w3" by (auto simp: Run_attempt_def split: option.splits)
    with c1 c2 Inr show ?thesis by auto
  qed
qed

lemma Run_attempt_counter:
  assumes "Run_attempt cl config pull (st, w) = (st', w')"
    and "\<not> panicked st" and "1 \<le> wg st" and "wg st < 2 ^ 31"
  shows "\<not> panicked st' \<and> wg st - 1 \<le> wg st' \<and> wg st' \<le> wg st"
  using assms
  by (auto simp: Run_attempt_def wg_Add_Done split: prod.splits option.splits sum.splits if_splits)

lemma Run_loop_trace:
  "Run_loop cl config False n (st, w) = (st', w') \<Longrightarrow> \<not> panicked st
     \<Longrightarrow> int n \<le> wg st \<Longrightarrow> wg st < 2 ^ 31 \<Longrightarrow>
     \<exists>tr. calls w' = calls w @ tr \<and> created_configs tr = replicate n config \<and> pulled tr = []"
proof (induction n arbitrary: st w)
  case 0
  then show ?case by simp
next
  case (Suc n)
  obtain st1 w1 where a: "Run_attempt cl config False (st, w) = (st1, w1)"
    by (cases "Run_attempt cl config False (st, w)")
  from Run_attempt_trace [OF a] obtain tr1 where
    t1: "calls w1 = calls w @ tr1" "created_configs tr1 = [config]" "pulled tr1 = []" by blast
  from Suc.prems(3) have "1 \<le> wg st" by simp
  from Run_attempt_counter [OF a Suc.prems(2) this Suc.prems(4)] Suc.prems(3,4)
  have c: "\<not> panicked st1" "int n \<le> wg st1" "wg st1 < 2 ^ 31" by auto
  from Suc.prems(1,2) a have "Run_loop cl config False n (st1, w1) = (st', w')" by simp
  from Suc.IH [OF this c] obtain tr2 where
    t2: "calls w' = calls w1 @ tr2" "created_configs tr2 = replicate n config" "pulled tr2 = []" by blast
  from t1 t2 have "calls w' = calls w @ (tr1 @ tr2) \<and> created_configs (tr1 @ tr2) = replicate (Suc n) config
      \<and> pulled (tr1 @ tr2) = []" by simp
  then show ?case by blast
qed

lemma Run_trace:
  assumes "Run cl config count False w = (r, w')" and "0 \<le> count" and "count < 2 ^ 31"
  shows "\<exists>tr. calls w' = calls w @ tr \<and> created_configs tr = replicate (nat count) config \<and> pulled tr = []"
proof -
  let ?st = "\<lparr>launched = [], runErr = None, wg = count, panicked = False\<rparr>"
  obtain st1 w1 where l: "Run_loop cl config False (nat count) (?st, w) = (st1, w1)"
    by (cases "Run_loop cl config False (nat count) (?st, w)")
  from assms l have "w' = w1" by (auto simp: Run_def wg_Add_start split: if_splits)
  moreover from assms(2,3) have "\<not> panicked ?st" "int (nat count) \<le> wg ?st" "wg ?st < 2 ^ 31"
    by simp_all
  from Run_loop_trace [OF l this] have
    "\<exists>tr. calls w1 = calls w @ tr \<and> created_configs tr = replicate (nat count) config \<and> pulled tr = []" .
  ultimately show ?thesis by simp
qed

text \<open>
  Claim C9. When the class is smaller than the desired count, everything \<^verbatim>\<open>Scale\<close> does
  after computing the class is the launch: it requests exactly \<open>count - current\<close> creations,
  each from the reference's configuration with the hostname set to the empty string,
  whatever the hostname was, and it requests no pull (the launch runs with
  \<^verbatim>\<open>pull = false\<close>). The number of replicas to add is one the 32-bit wait-group counter
  can hold, \<open>count - current < 2^31\<close>; from there on \<^verbatim>\<open>wg.Add\<close> panics before any
  replica is created (lemma \<open>Scale_up_beyond_int32_panics\<close> below).
\<close>

theorem Scale_up_clears_hostname:
  assumes "client_InspectContainer cl (Info_Id container) w = (Inr info, w1)"
    and "IdenticalContainers cl info True w1 = (Inr cls, w2)"
    and "int (length cls) < count"
    and "count - int (length cls) < 2 ^ 31"
    and "Scale cl slice_cap container count w = (r, w')"
  shows "created_configs (new_calls w2 w')
           = replicate (nat (count - int (length cls))) ((Info_Config container)\<lparr>Config_Hostname := ''''\<rparr>)
       \<and> pulled (new_calls w2 w') = []"
proof -
  let ?config = "(Info_Config container)\<lparr>Config_Hostname := ''''\<rparr>"
  obtain rr w3 where run: "Run cl ?config (count - int (length cls)) False w2 = (rr, w3)"
    by (cases "Run cl ?config (count - int (length cls)) False w2")
  from assms run have "w' = w3"
    by (auto simp: Scale_def Let_def split: outcome.splits option.splits prod.splits)
  moreover from assms(3) have "0 \<le> count - int (length cls)" by simp
  from Run_trace [OF run this assms(4)] obtain tr where
    "calls w3 = calls w2 @ tr" "created_configs tr = replicate (nat (count - int (length cls))) ?config"
    "pulled tr = []" by blast
  ultimately show ?thesis by simp
qed

theorem Scale_up_clears_hostname_witness:
  "created_configs
     (new_calls
        (snd (IdenticalContainers fleet_client (descriptor ''aaaaaaaa1'' ''myapp:v1'' ''web1'' [] 64) True
                (snd (client_InspectContainer fleet_client ''aaaaaaaa1'' (start_world (fleet_demo []))))))
        (snd (Scale fleet_client (\<lambda>n. n) (descriptor ''aaaaaaaa1'' ''myapp:v1'' ''web1'' [] 64) 5
                (start_world (fleet_demo [])))))
     = [\<lparr>Config_Hostname = '''', Config_Image = ''myapp:v1'', Config_Memory = 64,
          Config_HostConfig = hc0\<rparr>,
        \<lparr>Config_Hostname = '''', Config_Image = ''myapp:v1'', Config_Memory = 64,
          Config_HostConfig = hc0\<rparr>]"
proof -
  let ?w = "start_world (fleet_demo [])"
  let ?c = "descriptor ''aaaaaaaa1'' ''myapp:v1'' ''web1'' [] 64"
  let ?w1 = "snd (client_InspectContainer fleet_client ''aaaaaaaa1'' ?w)"
  let ?w2 = "snd (IdenticalContainers fleet_client ?c True ?w1)"
  let ?cls = "[?c, descriptor ''cccccccc3'' ''myapp:v1'' ''web3'' [] 64,
               descriptor ''dddddddd4'' ''myapp:v1'' ''web4'' [] 64]"
  let ?S = "Scale fleet_client (\<lambda>n. n) ?c 5 ?w"
  have i: "Info_Id ?c = ''aaaaaaaa1''" by (simp add: descriptor_def)
  have h1: "client_InspectContainer fleet_client (Info_Id ?c) ?w = (Inr ?c, ?w1)"
    by (simp add: manager_defs engine_defs)
  have h2: "IdenticalContainers fleet_client ?c True ?w1 = (Inr ?cls, ?w2)"
    by (simp add: manager_defs engine_defs)
  have h3: "int (length ?cls) < 5" by simp
  have h4: "5 - int (length ?cls) < 2 ^ 31" by simp
  have h5: "?S = (fst ?S, snd ?S)" by simp
  have n: "nat (5 - int (length ?cls)) = Suc (Suc 0)" by simp
  from Scale_up_clears_hostname [OF h1 h2 h3 h4 h5] show ?thesis
    unfolding n by (simp add: descriptor_def)
qed

text \<open>
  Beyond the bound: from \<open>2^31\<close> up to \<open>2^32\<close> replicas to add, \<^verbatim>\<open>wg.Add\<close> panics and
  \<^verbatim>\<open>Scale\<close> makes no call after computing the class.
\<close>

lemma Scale_up_beyond_int32_panics:
  assumes "client_InspectContainer cl (Info_Id container) w = (Inr info, w1)"
    and "IdenticalContainers cl info True w1 = (Inr cls, w2)"
    and "2 ^ 31 \<le> count - int (length cls)" and "count - int (length cls) < 2 ^ 32"
  shows "Scale cl slice_cap container count w = (Panics, w2)"
proof -
  have run: "Run cl config (count - int (length cls)) False w2 = (Panics, w2)" for config
    by (simp add: Run_def wg_Add_panics [OF assms(3,4)])
  have "(0::int) < 2 ^ 31" by simp
  with assms(3) have lt: "int (length cls) < count" by linarith
  then have nlt: "\<not> count < int (length cls)" by simp
  show ?thesis
    by (simp only: Scale_def Let_def assms(1,2) run lt nlt prod.case sum.case if_True if_False
        outcome.case)
qed

text \<open>
  Claim C1 asks \<^verbatim>\<open>Run\<close> to return the successes together with every failure and never
  to hang. In the source \<^verbatim>\<open>wg.Done()\<close> is reached on the success path only, so an attempt
  that fails leaves the wait-group counter above zero and \<^verbatim>\<open>wg.Wait()\<close> never returns:
  with one attempt whose creation fails, and with two attempts of which the second fails
  after the first replica has been started, the call hangs.
\<close>

theorem Run_hangs_on_failed_attempt:
  "fst (Run fleet_client (Info_Config (descriptor ''aaaaaaaa1'' ''myapp:v1'' ''web1'' [] 64)) 1 False
          (start_world (fleet_demo [Some (Error ''no space left'')]))) = Hangs
   \<and> fst (Run fleet_client (Info_Config (descriptor ''aaaaaaaa1'' ''myapp:v1'' ''web1'' [] 64)) 2 False
          (start_world (fleet_demo [None, None, Some (Error ''no space left'')]))) = Hangs
   \<and> started (calls (snd (Run fleet_client (Info_Config (descriptor ''aaaaaaaa1'' ''myapp:v1'' ''web1'' [] 64)) 2 False
          (start_world (fleet_demo [None, None, Some (Error ''no space left'')]))))) = [''replica-'']"
  by (simp add: manager_defs engine_defs numeral_2_eq_2)


section \<open>Classes on the reference engine\<close>

lemma removed_simps [simp]:
  "removed [] = []" "removed (tr @ tr') = removed tr @ removed tr'"
  "removed ((c, r) # tr) = (case c of CRemoveContainer x force \<Rightarrow> (if r = None then [x] else []) | _ \<Rightarrow> []) @ removed tr"
  by (simp_all add: removed_def)

lemma IdenticalContainers_loop_filter:
  "IdenticalContainers_loop container ics acc =
     acc @ filter (\<lambda>c. Config_Memory (Info_Config c) = Config_Memory (Info_Config container)
                       \<and> length (Info_Args c) = length (Info_Args container)) ics"
  by (induction ics arbitrary: acc) (simp_all add: Let_def)

lemma find_distinct:
  "distinct (map (Info_Id \<circ> rep_info) rs) \<Longrightarrow> r \<in> set rs
     \<Longrightarrow> find (has_id (Info_Id (rep_info r))) rs = Some r"
  by (induction rs) (auto simp: has_id_def)

lemma fleet_inspect_facts:
  assumes "client_InspectContainer fleet_client cid w = (r, w')"
  shows "replicas (engine w') = replicas (engine w)"
    and "r = Inr info \<Longrightarrow> \<exists>rep. find (has_id cid) (replicas (engine w)) = Some rep \<and> info = rep_info rep"
    and "script (engine w) = [] \<Longrightarrow> script (engine w') = []
           \<and> r = (case find (has_id cid) (replicas (engine w)) of
                    None \<Rightarrow> Inl (Error ''Not found'') | Some rep \<Rightarrow> Inr (rep_info rep))"
  using assms
  by (auto simp: client_InspectContainer_def logged_def fleet_client_def fleet_inspect_def
      next_fault_def split: list.splits option.splits prod.splits if_splits)

lemma fleet_list_facts:
  assumes "client_ListContainers fleet_client all sz flt w = (r, w')"
  shows "replicas (engine w') = replicas (engine w)"
    and "r = Inr cs \<Longrightarrow> cs = map listing_entry (filter (\<lambda>r. all \<or> rep_running r) (replicas (engine w)))"
    and "script (engine w) = [] \<Longrightarrow> script (engine w') = []
           \<and> r = Inr (map listing_entry (filter (\<lambda>r. all \<or> rep_running r) (replicas (engine w))))"
  using assms
  by (auto simp: client_ListContainers_def logged_def fleet_client_def fleet_list_def
      next_fault_def split: list.splits option.splits prod.splits if_splits)

lemma listing_entry_sel [simp]:
  "Container_Id (listing_entry r) = Info_Id (rep_info r)"
  "Container_Image (listing_entry r) = Info_Image (rep_info r)"
  by (simp_all add: listing_entry_def)

lemma ContainersByImage_loop_fleet:
  assumes "distinct (map (Info_Id \<circ> rep_info) (replicas (engine w)))"
    and "set rs \<subseteq> set (replicas (engine w))"
    and "ContainersByImage_loop fleet_client name (map listing_entry rs) acc w = (r, w')"
  shows "replicas (engine w') = replicas (engine w)
       \<and> (\<forall>cs. r = Inr cs \<longrightarrow>
             cs = acc @ filter (\<lambda>c. Index (Info_Image c) name > - 1) (map rep_info rs))
       \<and> (script (engine w) = [] \<longrightarrow> script (engine w') = []
             \<and> r = Inr (acc @ filter (\<lambda>c. Index (Info_Image c) name > - 1) (map rep_info rs)))"
  using assms
proof (induction rs arbitrary: acc w)
  case Nil
  then show ?case by auto
next
  case (Cons x rs)
  from Cons.prems(2) have xin: "x \<in> set (replicas (engine w))" and sub: "set rs \<subseteq> set (replicas (engine w))"
    by simp_all
  show ?case
  proof (cases "Index (Info_Image (rep_info x)) name > - 1")
    case False
    with Cons.prems(3) have l: "ContainersByImage_loop fleet_client name (map listing_entry rs) acc w = (r, w')"
      by simp
    from False have e: "filter (\<lambda>c. Index (Info_Image c) name > - 1) (map rep_info (x # rs))
        = filter (\<lambda>c. Index (Info_Image c) name > - 1) (map rep_info rs)" by simp
    show ?thesis unfolding e by (rule Cons.IH [OF Cons.prems(1) sub l])
  next
    case True
    obtain ri w1 where i: "client_InspectContainer fleet_client (Info_Id (rep_info x)) w = (ri, w1)"
      by (cases "client_InspectContainer fleet_client (Info_Id (rep_info x)) w")
    note f = fleet_inspect_facts [OF i]
    from Cons.prems(1) xin have fx: "find (has_id (Info_Id (rep_info x))) (replicas (engine w)) = Some x"
      by (rule find_distinct)
    show ?thesis
    proof (cases ri)
      case (Inl err)
      with Cons.prems(3) True i have rw: "r = Inl err" "w' = w1" by simp_all
      have "script (engine w) \<noteq> []"
      proof
        assume "script (engine w) = []"
        from f(3) [OF this] fx Inl show False by simp
      qed
      with rw f(1) show ?thesis by simp
    next
      case (Inr info)
      from f(2) [OF Inr] fx have info: "info = rep_info x" by simp
      from Cons.prems(3) True i Inr
      have l: "ContainersByImage_loop fleet_client name (map listing_entry rs) (acc @ [info]) w1 = (r, w')"
        by simp
      from Cons.prems(1) have d1: "distinct (map (Info_Id \<circ> rep_info) (replicas (engine w1)))"
        by (simp only: f(1))
      from sub have d2: "set rs \<subseteq> set (replicas (engine w1))" by (simp only: f(1))
      note ih = Cons.IH [OF d1 d2 l]
      have s: "script (engine w) = [] \<Longrightarrow> script (engine w1) = []"
        using f(3) by simp
      have e: "(acc @ [info]) @ filter (\<lambda>c. Index (Info_Image c) name > - 1) (map rep_info rs)
          = acc @ filter (\<lambda>c. Index (Info_Image c) name > - 1) (map rep_info (x # rs))"
        using True info by simp
      from ih have 1: "replicas (engine w') = replicas (engine w)" using f(1) by simp
      from ih have 2: "\<forall>cs. r = Inr cs \<longrightarrow>
             cs = acc @ filter (\<lambda>c. Index (Info_Image c) name > - 1) (map rep_info (x # rs))"
        unfolding e by blast
      from ih s have 3: "script (engine w) = [] \<longrightarrow> script (engine w') = []
             \<and> r = Inr (acc @ filter (\<lambda>c. Index (Info_Image c) name > - 1) (map rep_info (x # rs)))"
        unfolding e by blast
      from 1 2 3 show ?thesis by blast
    qed
  qed
qed

lemma IdenticalContainers_fleet:
  assumes "distinct (map Info_Id (infos (engine w)))"
    and "IdenticalContainers fleet_client container all w = (r, w')"
  shows "replicas (engine w') = replicas (engine w)
       \<and> (\<forall>cs. r = Inr cs \<longrightarrow>
             cs = filter (same_class container)
                    (map rep_info (filter (\<lambda>r. all \<or> rep_running r) (replicas (engine w)))))
       \<and> (script (engine w) = [] \<longrightarrow> script (engine w') = []
             \<and> r = Inr (filter (same_class container)
                    (map rep_info (filter (\<lambda>r. all \<or> rep_running r) (replicas (engine w))))))"
proof -
  let ?rs = "filter (\<lambda>r. all \<or> rep_running r) (replicas (engine w))"
  let ?P = "\<lambda>c. Index (Info_Image c) (Info_Image container) > - 1"
  let ?Q = "\<lambda>c. Config_Memory (Info_Config c) = Config_Memory (Info_Config container)
                       \<and> length (Info_Args c) = length (Info_Args container)"
  have sc: "filter ?Q (filter ?P xs) = filter (same_class container) xs" for xs
    by (induction xs) (auto simp: same_class_def)
  from assms(1) have d: "distinct (map (Info_Id \<circ> rep_info) (replicas (engine w)))"
    by (simp add: infos_def)
  obtain rl w1 where l: "client_ListContainers fleet_client all False '''' w = (rl, w1)"
    by (cases "client_ListContainers fleet_client all False '''' w")
  note f = fleet_list_facts [OF l]
  show ?thesis
  proof (cases rl)
    case (Inl err)
    with assms(2) l have "r = Inl err" "w' = w1"
      by (auto simp: IdenticalContainers_def ContainersByImage_def Containers_def)
    with f(1) f(3) Inl show ?thesis by auto
  next
    case (Inr cs)
    from f(2) [OF Inr] have cs: "cs = map listing_entry ?rs" .
    obtain rb w2 where b: "ContainersByImage_loop fleet_client (Info_Image container) (map listing_entry ?rs) [] w1 = (rb, w2)"
      by (cases "ContainersByImage_loop fleet_client (Info_Image container) (map listing_entry ?rs) [] w1")
    from d f(1) have d1: "distinct (map (Info_Id \<circ> rep_info) (replicas (engine w1)))"
      "set ?rs \<subseteq> set (replicas (engine w1))" by auto
    note g = ContainersByImage_loop_fleet [OF d1 b]
    show ?thesis
    proof (cases rb)
      case (Inl err)
      with assms(2) l Inr cs b have "r = Inl err" "w' = w2"
        by (auto simp: IdenticalContainers_def ContainersByImage_def Containers_def)
      with g f(1) f(3) Inl Inr show ?thesis by auto
    next
      case rb: (Inr ics)
      with assms(2) l Inr cs b have r: "r = Inr (filter ?Q ics)" "w' = w2"
        by (auto simp: IdenticalContainers_def ContainersByImage_def Containers_def
            IdenticalContainers_loop_filter)
      from g rb have "ics = filter ?P (map rep_info ?rs)" by simp
      with r sc [of "map rep_info ?rs"] g f(1) f(3) Inr rb show ?thesis by auto
    qed
  qed
qed

section \<open>Scaling down\<close>

lemma infos_quiet [simp]: "infos (engine (quiet w)) = infos (engine w)"
  "replicas (engine (quiet w)) = replicas (engine w)" "script (engine (quiet w)) = []"
  by (simp_all add: quiet_def infos_def)

lemma fleet_kill_facts:
  assumes "client_KillContainer fleet_client cid sig w = (r, w')"
  shows "infos (engine w') = infos (engine w)"
proof -
  have m: "map rep_info (map (\<lambda>r. if has_id cid r then r\<lparr>rep_running := False\<rparr> else r) rs) = map rep_info rs" for rs
    by (induction rs) auto
  from assms show ?thesis
    by (auto simp: client_KillContainer_def logged0_def fleet_client_def fleet_kill_def
        next_fault_def infos_def m split: list.splits option.splits prod.splits if_splits)
qed

lemma fleet_remove_facts:
  assumes "client_RemoveContainer fleet_client cid True w = (r, w')"
  shows "infos (engine w') =
           (if r = None then filter (\<lambda>c. Info_Id c \<noteq> cid) (infos (engine w)) else infos (engine w))"
proof -
  have m: "map rep_info (filter (\<lambda>r. \<not> has_id cid r) rs) = filter (\<lambda>c. Info_Id c \<noteq> cid) (map rep_info rs)" for rs
    by (induction rs) (auto simp: has_id_def)
  from assms show ?thesis
    by (auto simp: client_RemoveContainer_def logged0_def fleet_client_def fleet_remove_def
        next_fault_def infos_def m split: list.splits option.splits prod.splits if_splits)
qed

lemma Destroy_fleet:
  assumes "Destroy fleet_client cid w = (r, w')"
  shows "\<exists>tr. calls w' = calls w @ tr \<and> tr \<noteq> [] \<and> snd (last tr) = r
            \<and> removed tr = (if r = None then [cid] else []) \<and> created_configs tr = []
            \<and> infos (engine w') =
                 (if r = None then filter (\<lambda>c. Info_Id c \<noteq> cid) (infos (engine w))
                  else infos (engine w))"
proof -
  obtain rk w1 where k: "client_KillContainer fleet_client cid ''kill'' w = (rk, w1)"
    by (cases "client_KillContainer fleet_client cid ''kill'' w")
  note c1 = kill_calls [OF k] and f1 = fleet_kill_facts [OF k]
  show ?thesis
  proof (cases rk)
    case (Some e)
    with assms k have "r = Some e" "w' = w1" by (simp_all add: Destroy_def)
    with c1 f1 Some show ?thesis by simp
  next
    case None
    obtain rm w2 where m: "client_RemoveContainer fleet_client cid True w1 = (rm, w2)"
      by (cases "client_RemoveContainer fleet_client cid True w1")
    note c2 = remove_calls [OF m] and f2 = fleet_remove_facts [OF m]
    from assms k None m have "r = rm" "w' = w2" by (auto simp: Destroy_def split: option.splits)
    with c1 c2 f1 f2 None show ?thesis by simp
  qed
qed

lemma Scale_down_loop_fleet:
  "Scale_down_loop fleet_client cs w = (r, w') \<Longrightarrow>
     \<exists>tr k. calls w' = calls w @ tr \<and> k \<le> length cs
        \<and> removed tr = map Info_Id (take k cs)
        \<and> (r = None \<longleftrightarrow> k = length cs)
        \<and> (r \<noteq> None \<longrightarrow> tr \<noteq> [] \<and> snd (last tr) = r)
        \<and> created_configs tr = []
        \<and> infos (engine w') =
             filter (\<lambda>c. Info_Id c \<notin> set (map Info_Id (take k cs))) (infos (engine w))"
proof (induction cs arbitrary: w)
  case Nil
  then have "calls w' = calls w @ [] \<and> (0::nat) \<le> length ([]::ContainerInfo list)
        \<and> removed [] = map Info_Id (take 0 [])
        \<and> (r = None \<longleftrightarrow> 0 = length ([]::ContainerInfo list))
        \<and> (r \<noteq> None \<longrightarrow> [] \<noteq> [] \<and> snd (last []) = r)
        \<and> created_configs [] = []
        \<and> infos (engine w') =
             filter (\<lambda>c. Info_Id c \<notin> set (map Info_Id (take 0 []))) (infos (engine w))"
    by simp
  then show ?case by blast
next
  case (Cons c rest)
  obtain rd w1 where d: "Destroy fleet_client (Info_Id c) w = (rd, w1)"
    by (cases "Destroy fleet_client (Info_Id c) w")
  from Destroy_fleet [OF d] obtain dt where dt: "calls w1 = calls w @ dt" "dt \<noteq> []"
    "snd (last dt) = rd" "removed dt = (if rd = None then [Info_Id c] else [])"
    "created_configs dt = []"
    "infos (engine w1) = (if rd = None then filter (\<lambda>x. Info_Id x \<noteq> Info_Id c) (infos (engine w))
                  else infos (engine w))" by blast
  show ?case
  proof (cases rd)
    case (Some e)
    with Cons.prems d have rw: "r = Some e" "w' = w1" by simp_all
    with dt Some have "calls w' = calls w @ dt \<and> 0 \<le> length (c # rest)
        \<and> removed dt = map Info_Id (take 0 (c # rest))
        \<and> (r = None \<longleftrightarrow> 0 = length (c # rest))
        \<and> (r \<noteq> None \<longrightarrow> dt \<noteq> [] \<and> snd (last dt) = r)
        \<and> created_configs dt = []
        \<and> infos (engine w') =
             filter (\<lambda>x. Info_Id x \<notin> set (map Info_Id (take 0 (c # rest)))) (infos (engine w))"
      by simp
    then show ?thesis by blast
  next
    case None
    with Cons.prems d have "Scale_down_loop fleet_client rest w1 = (r, w')" by simp
    from Cons.IH [OF this] obtain tr k where t: "calls w' = calls w1 @ tr" "k \<le> length rest"
      "removed tr = map Info_Id (take k rest)" "r = None \<longleftrightarrow> k = length rest"
      "r \<noteq> None \<longrightarrow> tr \<noteq> [] \<and> snd (last tr) = r" "created_configs tr = []"
      "infos (engine w') = filter (\<lambda>x. Info_Id x \<notin> set (map Info_Id (take k rest))) (infos (engine w1))"
      by blast
    have f: "filter (\<lambda>x. Info_Id x \<notin> set (map Info_Id (take k rest)))
               (filter (\<lambda>x. Info_Id x \<noteq> Info_Id c) xs)
           = filter (\<lambda>x. Info_Id x \<notin> set (map Info_Id (take (Suc k) (c # rest)))) xs" for xs
      by (induction xs) auto
    from dt t None f [of "infos (engine w)"]
    have "calls w' = calls w @ (dt @ tr) \<and> Suc k \<le> length (c # rest)
        \<and> removed (dt @ tr) = map Info_Id (take (Suc k) (c # rest))
        \<and> (r = None \<longleftrightarrow> Suc k = length (c # rest))
        \<and> (r \<noteq> None \<longrightarrow> dt @ tr \<noteq> [] \<and> snd (last (dt @ tr)) = r)
        \<and> created_configs (dt @ tr) = []
        \<and> infos (engine w') =
             filter (\<lambda>x. Info_Id x \<notin> set (map Info_Id (take (Suc k) (c # rest)))) (infos (engine w))"
      by simp
    then show ?thesis by blast
  qed
qed

lemma drop_by_ids:
  "distinct (map f xs) \<Longrightarrow> filter (\<lambda>x. f x \<notin> set (map f (take k xs))) xs = drop k xs"
proof (induction xs arbitrary: k)
  case Nil
  then show ?case by simp
next
  case (Cons a xs)
  show ?case
  proof (cases k)
    case 0
    then show ?thesis by simp
  next
    case (Suc j)
    from Cons.prems have a: "f a \<notin> set (map f xs)" and d: "distinct (map f xs)" by simp_all
    have "filter (\<lambda>x. f x \<notin> set (map f (take (Suc j) (a # xs)))) xs
        = filter (\<lambda>x. f x \<notin> set (map f (take j xs))) xs"
      using a by (intro filter_cong refl) (auto simp: image_iff)
    with Cons.IH [OF d, of j] Suc show ?thesis by simp
  qed
qed

lemma distinct_ids_filter:
  "distinct (map Info_Id xs) \<Longrightarrow> distinct (map Info_Id (filter P xs))"
  by (rule distinct_map_filter)

lemma Scale_down_unfold:
  assumes "client_InspectContainer cl (Info_Id container) w = (Inr info, w1)"
    and "IdenticalContainers cl info True w1 = (Inr cls, w2)"
    and "0 \<le> count" and "count < int (length cls)"
    and "Scale_down_loop cl (take (nat (int (length cls) - count)) cls) w2 = (rd, w3)"
  shows "Scale cl slice_cap container count w = (Returns rd, w3)"
proof -
  from assms(3,4) have c: "int (length cls) > count" "int (length cls) - count \<le> int (length cls)"
    by simp_all
  show ?thesis
    by (cases rd) (simp_all add: Scale_def Let_def assms(1,2,5) c)
qed

text \<open>
  Claim C7, on the reference engine, for a desired count that is not negative (the spec's
  scaling request has a target count of at least 0). Let the class, as \<^verbatim>\<open>Scale\<close>
  computes it, have more members than \<open>count\<close>. The class is the fleet's descriptors that
  pass the class tests, in listing order. \<^verbatim>\<open>Scale\<close> removes a prefix of the class, the
  first \<open>k\<close> members in that order, with \<open>k\<close> at most \<open>current - count\<close>; it returns
  without error exactly when \<open>k = current - count\<close>, and then the class computed again
  afterwards has exactly \<open>count\<close> members, the remaining ones. When a destroy fails, the
  call returns that error with the failed call as its last call; it creates nothing (what
  was destroyed is not restored), and the class afterwards is the class without the \<open>k\<close>
  members removed before the failure.
\<close>

theorem Scale_down_destroys_first_members:
  assumes "distinct (map Info_Id (infos (engine w)))"
    and "client_InspectContainer fleet_client (Info_Id container) w = (Inr info, w1)"
    and "IdenticalContainers fleet_client info True w1 = (Inr cls, w2)"
    and "0 \<le> count" and "count < int (length cls)"
    and "Scale fleet_client slice_cap container count w = (r, w')"
  shows "cls = filter (same_class info) (infos (engine w))
       \<and> (\<exists>k \<le> nat (int (length cls) - count).
              removed (new_calls w2 w') = map Info_Id (take k cls)
            \<and> (r = Returns None \<longleftrightarrow> k = nat (int (length cls) - count))
            \<and> (r = Returns None \<longrightarrow> int (length (drop k cls)) = count)
            \<and> (r \<noteq> Returns None \<longrightarrow>
                  (\<exists>e c. r = Returns (Some e) \<and> last (new_calls w2 w') = (c, Some e)))
            \<and> created_configs (new_calls w2 w') = []
            \<and> fst (IdenticalContainers fleet_client info True (quiet w')) = Inr (drop k cls))"
proof -
  let ?n = "nat (int (length cls) - count)"
  from assms(4,5) have n: "?n \<le> length cls" "int (length cls) - int ?n = count" by simp_all
  have r1: "replicas (engine w1) = replicas (engine w)"
    by (rule fleet_inspect_facts(1) [OF assms(2)])
  then have i1: "infos (engine w1) = infos (engine w)" by (simp add: infos_def)
  with assms(1) have d1: "distinct (map Info_Id (infos (engine w1)))" by simp
  from IdenticalContainers_fleet [OF d1 assms(3)]
  have r2: "replicas (engine w2) = replicas (engine w1)"
    and c0: "cls = filter (same_class info)
                (map rep_info (filter (\<lambda>r. True \<or> rep_running r) (replicas (engine w1))))"
    by simp_all
  from r2 have i2: "infos (engine w2) = infos (engine w)" using i1 by (simp add: infos_def)
  from c0 r1 have cls: "cls = filter (same_class info) (infos (engine w))"
    by (simp add: infos_def)
  with assms(1) have dc: "distinct (map Info_Id cls)" by (simp add: distinct_ids_filter)
  obtain rd w3 where l: "Scale_down_loop fleet_client (take ?n cls) w2 = (rd, w3)"
    by (cases "Scale_down_loop fleet_client (take ?n cls) w2")
  from Scale_down_unfold [OF assms(2,3,4,5) l, of slice_cap] assms(6)
  have rw: "r = Returns rd" "w' = w3" by simp_all
  from Scale_down_loop_fleet [OF l] obtain tr k where
    t: "calls w3 = calls w2 @ tr" "k \<le> length (take ?n cls)"
      "removed tr = map Info_Id (take k (take ?n cls))"
      "rd = None \<longleftrightarrow> k = length (take ?n cls)"
      "rd \<noteq> None \<longrightarrow> tr \<noteq> [] \<and> snd (last tr) = rd"
      "created_configs tr = []"
      "infos (engine w3) = filter (\<lambda>c. Info_Id c \<notin> set (map Info_Id (take k (take ?n cls))))
                              (infos (engine w2))"
    by blast
  from t(2) n(1) have k: "k \<le> ?n" by simp
  then have tk: "take k (take ?n cls) = take k cls" by (simp add: min_def)
  from n(1) have ln: "length (take ?n cls) = ?n" by simp
  from t(1) rw have nc: "new_calls w2 w' = tr" by simp
  have 1: "removed (new_calls w2 w') = map Info_Id (take k cls)"
    using t(3) tk nc by simp
  have 2: "r = Returns None \<longleftrightarrow> k = ?n"
    using t(4) ln rw(1) by simp
  have 3: "r = Returns None \<longrightarrow> int (length (drop k cls)) = count"
  proof
    assume "r = Returns None"
    with 2 have "k = ?n" by simp
    with n show "int (length (drop k cls)) = count" by simp
  qed
  have 4: "r \<noteq> Returns None \<longrightarrow>
      (\<exists>e c. r = Returns (Some e) \<and> last (new_calls w2 w') = (c, Some e))"
  proof
    assume "r \<noteq> Returns None"
    with rw(1) obtain e where e: "rd = Some e" by (cases rd) auto
    with t(5) have "snd (last tr) = Some e" by simp
    then have "last tr = (fst (last tr), Some e)" by (cases "last tr") simp
    with e rw(1) nc show "\<exists>e c. r = Returns (Some e) \<and> last (new_calls w2 w') = (c, Some e)"
      by blast
  qed
  have 5: "created_configs (new_calls w2 w') = []" using t(6) nc by simp
  let ?P = "\<lambda>c. Info_Id c \<notin> set (map Info_Id (take k cls))"
  have i3: "infos (engine w') = filter ?P (infos (engine w))"
    using t(7) tk i2 rw(2) by simp
  then have dq: "distinct (map Info_Id (infos (engine (quiet w'))))"
    using assms(1) by (simp add: distinct_ids_filter)
  obtain rq wq where q: "IdenticalContainers fleet_client info True (quiet w') = (rq, wq)"
    by (cases "IdenticalContainers fleet_client info True (quiet w')")
  have sq: "script (engine (quiet w')) = []" by simp
  from IdenticalContainers_fleet [OF dq q] sq
  have "rq = Inr (filter (same_class info)
                (map rep_info (filter (\<lambda>r. True \<or> rep_running r) (replicas (engine (quiet w'))))))"
    by blast
  then have "rq = Inr (filter (same_class info) (infos (engine w')))"
    by (simp add: infos_def)
  also have "filter (same_class info) (infos (engine w')) = filter ?P cls"
    unfolding i3 cls by (simp add: conj_commute)
  also have "filter ?P cls = drop k cls" using dc by (rule drop_by_ids)
  finally have 6: "fst (IdenticalContainers fleet_client info True (quiet w')) = Inr (drop k cls)"
    using q by simp
  from k 1 2 3 4 5 6 have "k \<le> ?n
            \<and> removed (new_calls w2 w') = map Info_Id (take k cls)
            \<and> (r = Returns None \<longleftrightarrow> k = ?n)
            \<and> (r = Returns None \<longrightarrow> int (length (drop k cls)) = count)
            \<and> (r \<noteq> Returns None \<longrightarrow>
                  (\<exists>e c. r = Returns (Some e) \<and> last (new_calls w2 w') = (c, Some e)))
            \<and> created_configs (new_calls w2 w') = []
            \<and> fst (IdenticalContainers fleet_client info True (quiet w')) = Inr (drop k cls)"
    by blast
  then have "\<exists>k \<le> ?n.
              removed (new_calls w2 w') = map Info_Id (take k cls)
            \<and> (r = Returns None \<longleftrightarrow> k = ?n)
            \<and> (r = Returns None \<longrightarrow> int (length (drop k cls)) = count)
            \<and> (r \<noteq> Returns None \<longrightarrow>
                  (\<exists>e c. r = Returns (Some e) \<and> last (new_calls w2 w') = (c, Some e)))
            \<and> created_configs (new_calls w2 w') = []
            \<and> fst (IdenticalContainers fleet_client info True (quiet w')) = Inr (drop k cls)"
    by blast
  with cls show ?thesis by blast
qed

theorem Scale_down_destroys_first_members_witness:
  "removed (new_calls
       (snd (IdenticalContainers fleet_client (descriptor ''aaaaaaaa1'' ''myapp:v1'' ''web1'' [] 64) True
               (snd (client_InspectContainer fleet_client ''aaaaaaaa1'' (start_world (fleet_demo []))))))
       (snd (Scale fleet_client (\<lambda>n. n) (descriptor ''aaaaaaaa1'' ''myapp:v1'' ''web1'' [] 64) 1
               (start_world (fleet_demo [])))))
     = [''aaaaaaaa1'', ''cccccccc3'']
   \<and> fst (IdenticalContainers fleet_client (descriptor ''aaaaaaaa1'' ''myapp:v1'' ''web1'' [] 64) True
            (quiet (snd (Scale fleet_client (\<lambda>n. n) (descriptor ''aaaaaaaa1'' ''myapp:v1'' ''web1'' [] 64) 1
               (start_world (fleet_demo []))))))
     = Inr [descriptor ''dddddddd4'' ''myapp:v1'' ''web4'' [] 64]"
proof -
  let ?w = "start_world (fleet_demo [])"
  let ?c = "descriptor ''aaaaaaaa1'' ''myapp:v1'' ''web1'' [] 64"
  let ?w1 = "snd (client_InspectContainer fleet_client ''aaaaaaaa1'' ?w)"
  let ?w2 = "snd (IdenticalContainers fleet_client ?c True ?w1)"
  let ?cls = "[?c, descriptor ''cccccccc3'' ''myapp:v1'' ''web3'' [] 64,
               descriptor ''dddddddd4'' ''myapp:v1'' ''web4'' [] 64]"
  let ?S = "Scale fleet_client (\<lambda>n. n) ?c 1 ?w"
  have h0: "distinct (map Info_Id (infos (engine ?w)))"
    by (simp add: infos_def engine_defs)
  have h1: "client_InspectContainer fleet_client (Info_Id ?c) ?w = (Inr ?c, ?w1)"
    by (simp add: manager_defs engine_defs)
  have h2: "IdenticalContainers fleet_client ?c True ?w1 = (Inr ?cls, ?w2)"
    by (simp add: manager_defs engine_defs)
  have h3: "(0::int) \<le> 1" by simp
  have h4: "1 < int (length ?cls)" by simp
  have h5: "?S = (Returns None, snd ?S)"
    by (simp add: manager_defs engine_defs numeral_2_eq_2)
  have n: "nat (int (length ?cls) - 1) = 2" by simp
  from Scale_down_destroys_first_members [OF h0 h1 h2 h3 h4 h5] obtain k where
    "removed (new_calls ?w2 (snd ?S)) = map Info_Id (take k ?cls)"
    "k = nat (int (length ?cls) - 1)"
    "fst (IdenticalContainers fleet_client ?c True (quiet (snd ?S))) = Inr (drop k ?cls)"
    by blast
  then show ?thesis unfolding n by (simp add: descriptor_def)
qed

text \<open>
  A negative count, outside the claim: with the class of three members and a capacity of
  three, the slice expression panics and nothing is destroyed; with a capacity of four,
  \<^verbatim>\<open>Scale(container, -1)\<close> destroys all three members and then panics.
\<close>

lemma Scale_negative_count_examples:
  "fst (Scale fleet_client (\<lambda>n. n) (descriptor ''aaaaaaaa1'' ''myapp:v1'' ''web1'' [] 64) (- 1)
          (start_world (fleet_demo []))) = Panics
   \<and> removed (calls (snd (Scale fleet_client (\<lambda>n. n) (descriptor ''aaaaaaaa1'' ''myapp:v1'' ''web1'' [] 64) (- 1)
          (start_world (fleet_demo []))))) = []
   \<and> fst (Scale fleet_client (\<lambda>n. 4) (descriptor ''aaaaaaaa1'' ''myapp:v1'' ''web1'' [] 64) (- 1)
          (start_world (fleet_demo []))) = Panics
   \<and> removed (calls (snd (Scale fleet_client (\<lambda>n. 4) (descriptor ''aaaaaaaa1'' ''myapp:v1'' ''web1'' [] 64) (- 1)
          (start_world (fleet_demo [])))))
       = [''aaaaaaaa1'', ''cccccccc3'', ''dddddddd4'']"
  by (simp add: manager_defs engine_defs)

section \<open>Class membership\<close>

text \<open>
  Claim C6, as amended. On a fleet with distinct identifiers and no faults, a descriptor
  \<open>b\<close> of the fleet is in the class computed for the reference \<open>a\<close> exactly when the image
  reference of \<open>b\<close> contains that of \<open>a\<close> as a substring and the two have the same number
  of arguments and the same memory limit. Membership is reflexive; a descriptor that differs
  from the reference only in identifier or hostname is in its class; one that differs in
  memory limit is not.
\<close>

theorem class_membership_by_substring:
  assumes "script f = []" and "distinct (map Info_Id (infos f))" and "b \<in> set (infos f)"
  shows "(inClass f a b \<longleftrightarrow>
            sublist (Info_Image a) (Info_Image b)
          \<and> length (Info_Args b) = length (Info_Args a)
          \<and> Config_Memory (Info_Config b) = Config_Memory (Info_Config a))
       \<and> inClass f b b
       \<and> ((\<exists>i h. b = a\<lparr>Info_Id := i, Info_Config := (Info_Config a)\<lparr>Config_Hostname := h\<rparr>\<rparr>)
             \<longrightarrow> inClass f a b)
       \<and> (Config_Memory (Info_Config b) \<noteq> Config_Memory (Info_Config a) \<longrightarrow> \<not> inClass f a b)"
proof -
  have m: "inClass f x b \<longleftrightarrow> same_class x b" for x
  proof -
    obtain r w' where i: "IdenticalContainers fleet_client x True (start_world f) = (r, w')"
      by (cases "IdenticalContainers fleet_client x True (start_world f)")
    have d: "distinct (map Info_Id (infos (engine (start_world f))))"
      using assms(2) by (simp add: start_world_def)
    have s: "script (engine (start_world f)) = []" using assms(1) by (simp add: start_world_def)
    from IdenticalContainers_fleet [OF d i] s
    have "r = Inr (filter (same_class x)
             (map rep_info (filter (\<lambda>r. True \<or> rep_running r) (replicas (engine (start_world f))))))"
      by blast
    then have "r = Inr (filter (same_class x) (infos f))"
      by (simp add: infos_def start_world_def)
    with i assms(3) show ?thesis by (simp add: inClass_def)
  qed
  have 1: "inClass f a b \<longleftrightarrow>
            sublist (Info_Image a) (Info_Image b)
          \<and> length (Info_Args b) = length (Info_Args a)
          \<and> Config_Memory (Info_Config b) = Config_Memory (Info_Config a)"
    unfolding m by (auto simp: same_class_def Index_sublist)
  have 2: "inClass f b b" unfolding m by (simp add: same_class_def Index_sublist)
  have 3: "(\<exists>i h. b = a\<lparr>Info_Id := i, Info_Config := (Info_Config a)\<lparr>Config_Hostname := h\<rparr>\<rparr>)
             \<longrightarrow> inClass f a b"
    unfolding 1 by auto
  have 4: "Config_Memory (Info_Config b) \<noteq> Config_Memory (Info_Config a) \<longrightarrow> \<not> inClass f a b"
    unfolding 1 by simp
  from 1 2 3 4 show ?thesis by blast
qed

text \<open>
  C6 as stated has membership symmetric and tied to equal image references. With the images
  \<^verbatim>\<open>myapp\<close> and \<^verbatim>\<open>myapp:v1\<close>, the second replica is in the class of the first, but the
  first is not in the class of the second.
\<close>

theorem class_membership_not_symmetric_counterexample:
  "inClass (fleet_of [running (descriptor ''aaaaaaaa1'' ''myapp'' ''web1'' [] 64),
                      running (descriptor ''bbbbbbbb2'' ''myapp:v1'' ''web2'' [] 64)] [])
           (descriptor ''aaaaaaaa1'' ''myapp'' ''web1'' [] 64)
           (descriptor ''bbbbbbbb2'' ''myapp:v1'' ''web2'' [] 64)
   \<and> \<not> inClass (fleet_of [running (descriptor ''aaaaaaaa1'' ''myapp'' ''web1'' [] 64),
                      running (descriptor ''bbbbbbbb2'' ''myapp:v1'' ''web2'' [] 64)] [])
           (descriptor ''bbbbbbbb2'' ''myapp:v1'' ''web2'' [] 64)
           (descriptor ''aaaaaaaa1'' ''myapp'' ''web1'' [] 64)
   \<and> Info_Image (descriptor ''aaaaaaaa1'' ''myapp'' ''web1'' [] 64)
       \<noteq> Info_Image (descriptor ''bbbbbbbb2'' ''myapp:v1'' ''web2'' [] 64)"
  by (simp add: inClass_def manager_defs engine_defs)

theorem class_membership_by_substring_witness:
  "inClass (fleet_demo []) (descriptor ''aaaaaaaa1'' ''myapp:v1'' ''web1'' [] 64)
           (descriptor ''dddddddd4'' ''myapp:v1'' ''web4'' [] 64)
   \<and> \<not> inClass (fleet_demo []) (descriptor ''aaaaaaaa1'' ''myapp:v1'' ''web1'' [] 64)
           (descriptor ''bbbbbbbb2'' ''other:v1'' ''db'' [] 64)"
proof -
  have h1: "script (fleet_demo []) = []" by (simp add: engine_defs)
  have h2: "distinct (map Info_Id (infos (fleet_demo [])))" by (simp add: infos_def engine_defs)
  have h3: "descriptor ''dddddddd4'' ''myapp:v1'' ''web4'' [] 64 \<in> set (infos (fleet_demo []))"
    by (simp add: infos_def engine_defs)
  have h4: "descriptor ''bbbbbbbb2'' ''other:v1'' ''db'' [] 64 \<in> set (infos (fleet_demo []))"
    by (simp add: infos_def engine_defs)
  from class_membership_by_substring [OF h1 h2 h3, of "descriptor ''aaaaaaaa1'' ''myapp:v1'' ''web1'' [] 64"]
       class_membership_by_substring [OF h1 h2 h4, of "descriptor ''aaaaaaaa1'' ''myapp:v1'' ''web1'' [] 64"]
  show ?thesis
    by (simp add: descriptor_def Index_sublist [symmetric])
qed


end
